theory Spec2Isabelle
  imports Main
begin

section \<open>OfflineService (src/src/utils/inventoryViewService.ts)\<close>

subsection \<open>Data model\<close>

text \<open>
  \<^verbatim>\<open>interface PendingTransaction extends TransactionPayload { id; createdAt; attempts }\<close>.
  The business fields of \<^verbatim>\<open>TransactionPayload\<close> are never inspected by the service
  (they are spread into the queue entry and serialised into the request body), so they
  are one opaque component \<open>payload\<close>. The field \<^verbatim>\<open>id\<close> is called \<open>txid\<close>.
\<close>

record 'p PendingTransaction =
  payload :: 'p
  txid :: string
  createdAt :: int
  attempts :: nat

text \<open>\<^verbatim>\<open>interface CacheData { productos; inventario; lastUpdated; version }\<close>\<close>

record ('a, 'b) CacheData =
  productos :: "'a list"
  inventario :: "'b list"
  lastUpdated :: int
  version :: nat

text \<open>
  One key of \<^verbatim>\<open>localStorage\<close>. \<^verbatim>\<open>getItem\<close> gives \<^verbatim>\<open>null\<close> for a missing key
  (\<open>None\<close>) and otherwise the stored text, of which the service only ever uses
  whether it is the empty string (falsy), whether \<^verbatim>\<open>JSON.parse\<close> throws on it,
  and the value it parses to: \<open>Json v\<close> is the text \<^verbatim>\<open>JSON.stringify(v)\<close> of a value
  of the expected shape, \<open>Json_Null\<close> the text \<^verbatim>\<open>null\<close>, and \<open>Json_Other\<close> a text that
  parses to a number, a boolean or an object that is not an array. (A text that parses
  to a string, or to an array or object with fields of the wrong kind, is not modelled.)
\<close>

datatype 'v item = Empty_Text | Unparsable | Json_Null | Json_Other | Json 'v

text \<open>What \<^verbatim>\<open>JSON.parse\<close>, or the default chosen instead of it, hands to the caller.\<close>

datatype 'v parsed = Null_Value | Other_Value | Value 'v

text \<open>
  What a call can throw: the \<^verbatim>\<open>Error\<close> of the offline read path, the error rethrown by
  \<^verbatim>\<open>loadAndCacheData\<close>, a \<^verbatim>\<open>TypeError\<close> (a method or property of a value that does not
  have it), and the error of a refused \<^verbatim>\<open>localStorage.setItem\<close>.
\<close>

datatype error = NoCachedDataOffline | LoadError string | TypeError | QuotaExceededError

text \<open>
  The result of \<^verbatim>\<open>await fetch(...)\<close>: a response with its HTTP status, or a rejected
  promise. \<^verbatim>\<open>response.ok\<close> is true for the statuses 200 to 299.
\<close>

datatype response = Response nat | Network_Error

fun ok :: "response \<Rightarrow> bool" where
  "ok (Response st) = (200 \<le> st \<and> st \<le> 299)"
| "ok Network_Error = False"

text \<open>The calls that leave the device, in the order they are made.\<close>

datatype 'p net_call =
    Post_Transaction 'p
  | Post_Pending "'p PendingTransaction"
  | Query_Table string

text \<open>
  The state the service reads and writes: the two \<^verbatim>\<open>localStorage\<close> keys
  \<^verbatim>\<open>stockflow_cache\<close> and \<^verbatim>\<open>stockflow_pending_transactions\<close>; whether the storage
  refuses writes (\<^verbatim>\<open>setItem\<close> throws, as it does when the quota is used up or storage
  is disabled; \<^verbatim>\<open>getItem\<close> and \<^verbatim>\<open>removeItem\<close> do not throw); the instance field
  \<^verbatim>\<open>syncInProgress\<close>; \<^verbatim>\<open>navigator.onLine\<close>; and two logs: the network calls made,
  and the ids for which \<^verbatim>\<open>removePendingTransaction\<close> has written the filtered queue
  (the line where the source prints "Transaction removed from queue").
\<close>

record ('p, 'a, 'b) world =
  cache_item :: "('a, 'b) CacheData item option"
  pending_item :: "'p PendingTransaction list item option"
  storage_full :: bool
  syncInProgress :: bool
  onLine :: bool
  net_log :: "'p net_call list"
  dequeued :: "string list"

definition CACHE_EXPIRY :: int where
  "CACHE_EXPIRY = 30 * 60 * 1000"

subsection \<open>Cache\<close>

definition clearCache :: "('p, 'a, 'b) world \<Rightarrow> ('p, 'a, 'b) world" where
  "clearCache w = w\<lparr>cache_item := None\<rparr>"

text \<open>
  \<^verbatim>\<open>getCachedData\<close> at clock reading \<open>now\<close>. A missing key and the empty string
  return \<^verbatim>\<open>null\<close> at once; a text that does not parse, or that parses to something
  without the fields read here, reaches the \<^verbatim>\<open>catch\<close>, which clears the cache; an
  entry is expired when \<^verbatim>\<open>now - data.lastUpdated > CACHE_EXPIRY\<close>.
\<close>

definition getCachedData ::
  "int \<Rightarrow> ('p, 'a, 'b) world \<Rightarrow> ('a, 'b) CacheData option \<times> ('p, 'a, 'b) world" where
  "getCachedData now w =
     (case cache_item w of
        None \<Rightarrow> (None, w)
      | Some Empty_Text \<Rightarrow> (None, w)
      | Some Unparsable \<Rightarrow> (None, clearCache w)
      | Some Json_Null \<Rightarrow> (None, clearCache w)
      | Some Json_Other \<Rightarrow> (None, clearCache w)
      | Some (Json d) \<Rightarrow>
          if now - lastUpdated d > CACHE_EXPIRY then (None, clearCache w)
          else (Some d, w))"

text \<open>
  \<^verbatim>\<open>setCachedData\<close>: when the write is refused the cache is cleared and the write
  tried once more; a second refusal is logged and nothing is thrown. The refusal is a
  property of the storage here, so a storage that refuses the first write refuses the
  second too.
\<close>

definition setCachedData ::
  "'a list \<Rightarrow> 'b list \<Rightarrow> int \<Rightarrow> ('p, 'a, 'b) world \<Rightarrow> ('p, 'a, 'b) world" where
  "setCachedData ps ivs now w =
     (if storage_full w then
        (let w1 = clearCache w
         in if storage_full w1 then w1
            else w1\<lparr>cache_item :=
                      Some (Json \<lparr>productos = ps, inventario = ivs, lastUpdated = now,
                                  version = 1\<rparr>)\<rparr>)
      else w\<lparr>cache_item :=
               Some (Json \<lparr>productos = ps, inventario = ivs, lastUpdated = now,
                           version = 1\<rparr>)\<rparr>)"

definition hasCachedData :: "int \<Rightarrow> ('p, 'a, 'b) world \<Rightarrow> bool \<times> ('p, 'a, 'b) world" where
  "hasCachedData now w = (case getCachedData now w of (c, w') \<Rightarrow> (c \<noteq> None, w'))"

subsection \<open>Queue of pending transactions\<close>

text \<open>
  \<^verbatim>\<open>getPendingTransactions\<close>: \<^verbatim>\<open>pending ? JSON.parse(pending) : []\<close>, and \<^verbatim>\<open>[]\<close> from
  the \<^verbatim>\<open>catch\<close> when the text does not parse. A text that parses is returned as parsed,
  list or not.
\<close>

definition getPendingTransactions ::
  "('p, 'a, 'b) world \<Rightarrow> 'p PendingTransaction list parsed" where
  "getPendingTransactions w =
     (case pending_item w of
        None \<Rightarrow> Value []
      | Some Empty_Text \<Rightarrow> Value []
      | Some Unparsable \<Rightarrow> Value []
      | Some Json_Null \<Rightarrow> Null_Value
      | Some Json_Other \<Rightarrow> Other_Value
      | Some (Json ts) \<Rightarrow> Value ts)"

text \<open>\<^verbatim>\<open>localStorage.setItem(PENDING_TRANSACTIONS_KEY, JSON.stringify(ts))\<close>\<close>

definition setPending ::
  "'p PendingTransaction list \<Rightarrow> ('p, 'a, 'b) world \<Rightarrow> error + ('p, 'a, 'b) world" where
  "setPending ts w =
     (if storage_full w then Inl QuotaExceededError
      else Inr (w\<lparr>pending_item := Some (Json ts)\<rparr>))"

text \<open>Decimal text of a number, as a template literal prints \<^verbatim>\<open>Date.now()\<close>.\<close>

fun digits10 :: "nat \<Rightarrow> string" where
  "digits10 n =
     (if n < 10 then [char_of (48 + n)]
      else digits10 (n div 10) @ [char_of (48 + n mod 10)])"

definition show_int :: "int \<Rightarrow> string" where
  "show_int i = (if i < 0 then CHR ''-'' # digits10 (nat (- i)) else digits10 (nat i))"

text \<open>
  \<^verbatim>\<open>`offline_${Date.now()}_${Math.random().toString(36).substr(2, 9)}`\<close>; the clock
  reading and the random suffix are the inputs.
\<close>

definition generateTransactionId :: "int \<Rightarrow> string \<Rightarrow> string" where
  "generateTransactionId now rnd = ''offline_'' @ show_int now @ ''_'' @ rnd"

text \<open>
  \<^verbatim>\<open>addPendingTransaction\<close>. The object literal reads the clock twice: \<open>t_id\<close> inside
  \<^verbatim>\<open>generateTransactionId\<close>, then \<open>t_created\<close> for \<^verbatim>\<open>createdAt\<close>. \<^verbatim>\<open>pending.push\<close>
  throws a \<^verbatim>\<open>TypeError\<close> when the stored text parsed to something that is not a list,
  and \<^verbatim>\<open>setItem\<close> may throw; the \<^verbatim>\<open>catch\<close> logs and rethrows, so either error leaves
  the call (\<open>Inl\<close>) with the state as it was.
\<close>

definition addPendingTransaction ::
  "'p \<Rightarrow> int \<Rightarrow> string \<Rightarrow> int \<Rightarrow> ('p, 'a, 'b) world
     \<Rightarrow> error + (string \<times> ('p, 'a, 'b) world)" where
  "addPendingTransaction tx t_id rnd t_created w =
     (let pendingTransaction =
            \<lparr>payload = tx, txid = generateTransactionId t_id rnd,
             createdAt = t_created, attempts = 0\<rparr>
      in case getPendingTransactions w of
           Value pending \<Rightarrow>
             (case setPending (pending @ [pendingTransaction]) w of
                Inl e \<Rightarrow> Inl e
              | Inr w' \<Rightarrow> Inr (txid pendingTransaction, w'))
         | _ \<Rightarrow> Inl TypeError)"

text \<open>
  \<^verbatim>\<open>removePendingTransaction\<close>: anything thrown (\<^verbatim>\<open>pending.filter\<close> on a value that is
  not a list, a refused write) is caught and logged; the state is then as it was.
\<close>

definition removePendingTransaction ::
  "string \<Rightarrow> ('p, 'a, 'b) world \<Rightarrow> ('p, 'a, 'b) world" where
  "removePendingTransaction transactionId w =
     (case getPendingTransactions w of
        Value pending \<Rightarrow>
          (case setPending (filter (\<lambda>t. txid t \<noteq> transactionId) pending) w of
             Inl e \<Rightarrow> w
           | Inr w' \<Rightarrow> w'\<lparr>dequeued := dequeued w @ [transactionId]\<rparr>)
      | _ \<Rightarrow> w)"

text \<open>
  \<^verbatim>\<open>pending.find(t => t.id === transactionId)\<close> followed by \<^verbatim>\<open>transaction.attempts++\<close>:
  the first entry with that id is incremented in the freshly parsed list; \<open>None\<close>
  when there is no such entry.
\<close>

fun bump_first :: "string \<Rightarrow> 'p PendingTransaction list \<Rightarrow> 'p PendingTransaction list option" where
  "bump_first i [] = None"
| "bump_first i (t # ts) =
     (if txid t = i then Some (t\<lparr>attempts := attempts t + 1\<rparr> # ts)
      else map_option (\<lambda>r. t # r) (bump_first i ts))"

definition incrementTransactionAttempts ::
  "string \<Rightarrow> ('p, 'a, 'b) world \<Rightarrow> ('p, 'a, 'b) world" where
  "incrementTransactionAttempts transactionId w =
     (case getPendingTransactions w of
        Value pending \<Rightarrow>
          (case bump_first transactionId pending of
             None \<Rightarrow> w
           | Some pending' \<Rightarrow>
               (case setPending pending' w of Inl e \<Rightarrow> w | Inr w' \<Rightarrow> w'))
      | _ \<Rightarrow> w)"

text \<open>
  \<^verbatim>\<open>getPendingTransactions().length\<close>: a \<^verbatim>\<open>TypeError\<close> on \<^verbatim>\<open>null\<close>, \<^verbatim>\<open>undefined\<close>
  (\<open>None\<close>) on a number, boolean or plain object.
\<close>

definition getPendingTransactionCount :: "('p, 'a, 'b) world \<Rightarrow> error + nat option" where
  "getPendingTransactionCount w =
     (case getPendingTransactions w of
        Null_Value \<Rightarrow> Inl TypeError
      | Other_Value \<Rightarrow> Inr None
      | Value ts \<Rightarrow> Inr (Some (length ts)))"

subsection \<open>Synchronisation\<close>

text \<open>
  The remote side is a script \<open>remote\<close>: the outcome of the \<open>k\<close>-th network call
  made so far. Issuing a \<^verbatim>\<open>fetch\<close> appends the call to the log; the task is then
  suspended until the outcome arrives.
\<close>

definition send :: "'p net_call \<Rightarrow> ('p, 'a, 'b) world \<Rightarrow> ('p, 'a, 'b) world" where
  "send c w = w\<lparr>net_log := net_log w @ [c]\<rparr>"

record sync_result =
  synced :: nat
  failed :: nat

type_synonym ('p, 'a, 'b) sync_state = "('p, 'a, 'b) world \<times> nat \<times> nat"

text \<open>
  The part of one loop iteration that runs when the \<^verbatim>\<open>fetch\<close> for the snapshot entry
  \<open>t\<close> has settled with \<open>r\<close>. The test \<^verbatim>\<open>transaction.attempts >= 5\<close> reads the entry of
  the snapshot taken at the start of the pass; \<^verbatim>\<open>incrementTransactionAttempts\<close> updates
  a separately parsed copy. The \<^verbatim>\<open>catch\<close> branch (rejected fetch) increments and counts
  the failure, nothing else.
\<close>

definition sync_settle ::
  "response \<Rightarrow> 'p PendingTransaction \<Rightarrow> ('p, 'a, 'b) sync_state \<Rightarrow> ('p, 'a, 'b) sync_state" where
  "sync_settle r t st =
     (case st of (w, s, f) \<Rightarrow>
        (case r of
           Network_Error \<Rightarrow> (incrementTransactionAttempts (txid t) w, s, f + 1)
         | Response c \<Rightarrow>
             if ok r then (removePendingTransaction (txid t) w, s + 1, f)
             else
               (let w1 = incrementTransactionAttempts (txid t) w
                in if attempts t \<ge> 5
                   then (removePendingTransaction (txid t) w1, s, (f + 1) - 1)
                   else (w1, s, f + 1))))"

definition sync_one ::
  "(nat \<Rightarrow> response) \<Rightarrow> 'p PendingTransaction \<Rightarrow> ('p, 'a, 'b) sync_state \<Rightarrow> ('p, 'a, 'b) sync_state" where
  "sync_one remote t st =
     (case st of (w, s, f) \<Rightarrow>
        sync_settle (remote (length (net_log w))) t (send (Post_Pending t) w, s, f))"

fun sync_loop ::
  "(nat \<Rightarrow> response) \<Rightarrow> 'p PendingTransaction list \<Rightarrow> ('p, 'a, 'b) sync_state \<Rightarrow> ('p, 'a, 'b) sync_state" where
  "sync_loop remote [] st = st"
| "sync_loop remote (t # ts) st = sync_loop remote ts (sync_one remote t st)"

definition sync_finish ::
  "('p, 'a, 'b) sync_state \<Rightarrow> (error + sync_result) \<times> ('p, 'a, 'b) world" where
  "sync_finish st =
     (case st of (w, s, f) \<Rightarrow>
        (Inr \<lparr>synced = s, failed = f\<rparr>, w\<lparr>syncInProgress := False\<rparr>))"

text \<open>
  The synchronous head of \<^verbatim>\<open>syncPendingTransactions\<close>, up to the first \<^verbatim>\<open>await\<close>: the
  guard, the arming of the flag and the snapshot. It either ends the call (\<open>Returned\<close>)
  or enters the loop with the armed state and the snapshot (\<open>Running\<close>).
  \<^verbatim>\<open>pending.length\<close> on \<^verbatim>\<open>null\<close>, and \<^verbatim>\<open>for (... of pending)\<close> on a value that cannot
  be iterated, throw outside any \<^verbatim>\<open>try\<close>: the call ends with the flag still set.
\<close>

datatype ('p, 'a, 'b) started =
    Returned "(error + sync_result) \<times> ('p, 'a, 'b) world"
  | Running "('p, 'a, 'b) world" "'p PendingTransaction list"

definition sync_begin :: "('p, 'a, 'b) world \<Rightarrow> ('p, 'a, 'b) started" where
  "sync_begin w =
     (if syncInProgress w then Returned (Inr \<lparr>synced = 0, failed = 0\<rparr>, w)
      else
        (let w1 = w\<lparr>syncInProgress := True\<rparr>
         in case getPendingTransactions w1 of
              Null_Value \<Rightarrow> Returned (Inl TypeError, w1)
            | Other_Value \<Rightarrow> Returned (Inl TypeError, w1)
            | Value pending \<Rightarrow>
                if length pending = 0
                then Returned (Inr \<lparr>synced = 0, failed = 0\<rparr>, w1\<lparr>syncInProgress := False\<rparr>)
                else Running w1 pending))"

definition syncPendingTransactions ::
  "(nat \<Rightarrow> response) \<Rightarrow> ('p, 'a, 'b) world \<Rightarrow> (error + sync_result) \<times> ('p, 'a, 'b) world" where
  "syncPendingTransactions remote w =
     (case sync_begin w of
        Returned res \<Rightarrow> res
      | Running w1 pending \<Rightarrow> sync_finish (sync_loop remote pending (w1, 0, 0)))"

record process_result =
  success :: bool
  offline :: bool
  transactionId :: "string option"

text \<open>
  \<^verbatim>\<open>processTransaction\<close>. The \<^verbatim>\<open>try\<close> covers the fetch only: the two calls of
  \<^verbatim>\<open>addPendingTransaction\<close> (in the \<^verbatim>\<open>catch\<close> and in the offline branch) are not
  guarded, so what they throw rejects the promise (\<open>Inl\<close>).
\<close>

definition processTransaction ::
  "(nat \<Rightarrow> response) \<Rightarrow> 'p \<Rightarrow> int \<Rightarrow> string \<Rightarrow> int \<Rightarrow> ('p, 'a, 'b) world
     \<Rightarrow> (error + process_result) \<times> ('p, 'a, 'b) world" where
  "processTransaction remote tx t_id rnd t_created w =
     (if onLine w then
        (let r = remote (length (net_log w));
             w1 = send (Post_Transaction tx) w
         in if ok r then (Inr \<lparr>success = True, offline = False, transactionId = None\<rparr>, w1)
            else
              (case addPendingTransaction tx t_id rnd t_created w1 of
                 Inl e \<Rightarrow> (Inl e, w1)
               | Inr (i, w2) \<Rightarrow>
                   (Inr \<lparr>success = True, offline = True, transactionId = Some i\<rparr>, w2)))
      else
        (case addPendingTransaction tx t_id rnd t_created w of
           Inl e \<Rightarrow> (Inl e, w)
         | Inr (i, w2) \<Rightarrow>
             (Inr \<lparr>success = True, offline = True, transactionId = Some i\<rparr>, w2)))"

text \<open>
  A sequence of \<^verbatim>\<open>addPendingTransaction\<close> calls, each with its payload, its two clock
  readings and its random suffix, returning the ids in call order; it stops at the first
  call that throws.
\<close>

fun enqueue_all ::
  "('p \<times> int \<times> string \<times> int) list \<Rightarrow> ('p, 'a, 'b) world
     \<Rightarrow> error + (string list \<times> ('p, 'a, 'b) world)" where
  "enqueue_all [] w = Inr ([], w)"
| "enqueue_all ((tx, t_id, rnd, t_created) # es) w =
     (case addPendingTransaction tx t_id rnd t_created w of
        Inl e \<Rightarrow> Inl e
      | Inr (i, w1) \<Rightarrow>
          (case enqueue_all es w1 of
             Inl e \<Rightarrow> Inl e
           | Inr (ids, w2) \<Rightarrow> Inr (i # ids, w2)))"

text \<open>Consecutive complete passes; the results are listed first pass first.\<close>

fun sync_passes ::
  "nat \<Rightarrow> (nat \<Rightarrow> response) \<Rightarrow> ('p, 'a, 'b) world
     \<Rightarrow> (error + sync_result) list \<times> ('p, 'a, 'b) world" where
  "sync_passes 0 remote w = ([], w)"
| "sync_passes (Suc n) remote w =
     (case syncPendingTransactions remote w of
        (r, w1) \<Rightarrow> (case sync_passes n remote w1 of (rs, w2) \<Rightarrow> (r # rs, w2)))"

text \<open>
  Two overlapping invocations. The first one is started in \<open>w\<close>. When its synchronous
  head ends the call there is nothing to overlap with, and the second call simply runs
  afterwards. Otherwise the first call completes \<open>k\<close> iterations and is suspended at the
  \<^verbatim>\<open>await fetch\<close> of snapshot entry \<open>k\<close>; the second invocation runs at that point, in
  the state the first one has produced; then the first one resumes with the outcome of
  its fetch and runs to its end. The results are those of the first and of the second
  call.
\<close>

definition overlapped_sync ::
  "(nat \<Rightarrow> response) \<Rightarrow> nat \<Rightarrow> ('p, 'a, 'b) world
     \<Rightarrow> (error + sync_result) \<times> (error + sync_result) \<times> ('p, 'a, 'b) world" where
  "overlapped_sync remote k w =
     (case sync_begin w of
        Returned (first, w1) \<Rightarrow>
          (case syncPendingTransactions remote w1 of (second, w2) \<Rightarrow> (first, second, w2))
      | Running w1 pending \<Rightarrow>
          (case sync_loop remote (take k pending) (w1, 0, 0) of
             (wk, s, f) \<Rightarrow>
               (let t = pending ! k;
                    r = remote (length (net_log wk));
                    wa = send (Post_Pending t) wk
                in case syncPendingTransactions remote wa of
                     (second, wb) \<Rightarrow>
                       (case sync_finish
                               (sync_loop remote (drop (Suc k) pending)
                                  (sync_settle r t (wb, s, f))) of
                          (first, wc) \<Rightarrow> (first, second, wc)))))"

text \<open>
  The ids one pass removes, in order, when its first request is call number \<open>n\<close> of
  the script: an entry is removed when its commit is answered ok, or when it is answered
  with an error status and the snapshot entry already shows 5 attempts.
\<close>

fun removals :: "(nat \<Rightarrow> response) \<Rightarrow> nat \<Rightarrow> 'p PendingTransaction list \<Rightarrow> string list" where
  "removals remote n [] = []"
| "removals remote n (t # ts) =
     (if ok (remote n) \<or> (remote n \<noteq> Network_Error \<and> 5 \<le> attempts t)
      then txid t # removals remote (Suc n) ts
      else removals remote (Suc n) ts)"

text \<open>The remote side that answers every call with \<open>r\<close>.\<close>

definition always :: "response \<Rightarrow> nat \<Rightarrow> response" where
  "always r k = r"

text \<open>A device with empty storage that accepts writes, online, nothing in flight.\<close>

definition fresh_world :: "(string, string, string) world" where
  "fresh_world =
     \<lparr>cache_item = None, pending_item = None, storage_full = False,
      syncInProgress = False, onLine = True, net_log = [], dequeued = []\<rparr>"

subsection \<open>Reading data\<close>

record ('a, 'b) data_result =
  r_productos :: "'a list"
  r_inventario :: "'b list"
  fromCache :: bool

text \<open>
  \<^verbatim>\<open>loadAndCacheData\<close>: the two queries go out together; \<open>load\<close> is what comes back,
  \<open>Inl msg\<close> when either query reports an error or the call throws (the function
  rethrows), \<open>Inr\<close> the two row sets otherwise, which are then cached at the clock
  reading \<open>later\<close> of that moment.
\<close>

definition loadAndCacheData ::
  "string + ('a list \<times> 'b list) \<Rightarrow> int \<Rightarrow> ('p, 'a, 'b) world
     \<Rightarrow> (error + ('a list \<times> 'b list)) \<times> ('p, 'a, 'b) world" where
  "loadAndCacheData load later w =
     (let w1 = send (Query_Table ''vista_inventario'') (send (Query_Table ''productos'') w)
      in case load of
           Inl msg \<Rightarrow> (Inl (LoadError msg), w1)
         | Inr (ps, ivs) \<Rightarrow> (Inr (ps, ivs), setCachedData ps ivs later w1))"

definition from_cache :: "('a, 'b) CacheData \<Rightarrow> ('a, 'b) data_result" where
  "from_cache c = \<lparr>r_productos = productos c, r_inventario = inventario c, fromCache = True\<rparr>"

text \<open>
  \<^verbatim>\<open>getData(forceRefresh)\<close>, called at clock reading \<open>now\<close>; \<open>later\<close> is the reading
  once the network has answered. The thrown offline error is \<open>NoCachedDataOffline\<close>.
  \<^verbatim>\<open>forceRefresh || !this.hasCachedData()\<close> does not evaluate \<^verbatim>\<open>hasCachedData\<close> when
  \<^verbatim>\<open>forceRefresh\<close> is true.
\<close>

definition getData ::
  "bool \<Rightarrow> string + ('a list \<times> 'b list) \<Rightarrow> int \<Rightarrow> int \<Rightarrow> ('p, 'a, 'b) world
     \<Rightarrow> (error + ('a, 'b) data_result) \<times> ('p, 'a, 'b) world" where
  "getData forceRefresh load now later w =
     (if \<not> onLine w then
        (case getCachedData now w of
           (Some cached, w1) \<Rightarrow> (Inr (from_cache cached), w1)
         | (None, w1) \<Rightarrow> (Inl NoCachedDataOffline, w1))
      else
        (case (if forceRefresh then (True, w)
               else (case hasCachedData now w of (h, w') \<Rightarrow> (\<not> h, w'))) of
           (True, w1) \<Rightarrow>
             (case loadAndCacheData load later w1 of
                (Inr (ps, ivs), w2) \<Rightarrow>
                  (Inr \<lparr>r_productos = ps, r_inventario = ivs, fromCache = False\<rparr>, w2)
              | (Inl e, w2) \<Rightarrow>
                  (case getCachedData later w2 of
                     (Some cached, w3) \<Rightarrow> (Inr (from_cache cached), w3)
                   | (None, w3) \<Rightarrow> (Inl e, w3)))
         | (False, w1) \<Rightarrow>
             (case getCachedData now w1 of
                (Some cached, w2) \<Rightarrow> (Inr (from_cache cached), w2)
              | (None, w2) \<Rightarrow>
                  (case loadAndCacheData load later w2 of
                     (Inr (ps, ivs), w3) \<Rightarrow>
                       (Inr \<lparr>r_productos = ps, r_inventario = ivs, fromCache = False\<rparr>, w3)
                   | (Inl e, w3) \<Rightarrow> (Inl e, w3)))))"

text \<open>A cache entry written at clock reading 0.\<close>

definition cached_world :: "(string, string, string) world" where
  "cached_world =
     \<lparr>cache_item =
        Some (Json \<lparr>productos = [''gin''], inventario = [''gin@bar''], lastUpdated = 0,
                    version = 1\<rparr>),
      pending_item = None, storage_full = False, syncInProgress = False, onLine = True,
      net_log = [], dequeued = []\<rparr>"

section \<open>ScheduledReportService (src/src/utils/scheduledReportService.ts)\<close>

subsection \<open>Configuration and its text fields\<close>

text \<open>The fields of \<^verbatim>\<open>AlertConfiguration\<close> that the scheduler reads.\<close>

record AlertConfiguration =
  reporte_reposicion_activado :: bool
  reporte_frecuencia :: string
  reporte_dia :: string
  reporte_hora :: string

definition is_digit :: "char \<Rightarrow> bool" where
  "is_digit c = (48 \<le> (of_char c :: nat) \<and> (of_char c :: nat) \<le> 57)"

definition is_space :: "char \<Rightarrow> bool" where
  "is_space c = ((of_char c :: nat) = 32 \<or> (9 \<le> (of_char c :: nat) \<and> (of_char c :: nat) \<le> 13))"

fun digits_value :: "nat \<Rightarrow> string \<Rightarrow> nat" where
  "digits_value acc [] = acc"
| "digits_value acc (c # cs) = digits_value (10 * acc + ((of_char c :: nat) - 48)) cs"

definition is_hex_digit :: "char \<Rightarrow> bool" where
  "is_hex_digit c =
     (is_digit c \<or> (65 \<le> (of_char c :: nat) \<and> (of_char c :: nat) \<le> 70)
                \<or> (97 \<le> (of_char c :: nat) \<and> (of_char c :: nat) \<le> 102))"

definition hex_digit_value :: "char \<Rightarrow> nat" where
  "hex_digit_value c =
     (if is_digit c then (of_char c :: nat) - 48
      else if (of_char c :: nat) \<le> 70 then (of_char c :: nat) - 55
      else (of_char c :: nat) - 87)"

fun hex_value :: "nat \<Rightarrow> string \<Rightarrow> nat" where
  "hex_value acc [] = acc"
| "hex_value acc (c # cs) = hex_value (16 * acc + hex_digit_value c) cs"

text \<open>
  \<^verbatim>\<open>Number(s)\<close> on text, \<open>None\<close> for \<^verbatim>\<open>NaN\<close>: blanks around the text are dropped, the
  empty text is 0, a run of decimal digits is its value. Signed, fractional, exponent
  and prefixed spellings, which JavaScript also reads as numbers, are outside this model
  (they give \<open>None\<close> here); the settings screen writes \<^verbatim>\<open>'00:00'\<close> .. \<^verbatim>\<open>'23:00'\<close>.
\<close>

definition Number_str :: "string \<Rightarrow> int option" where
  "Number_str s =
     (let t = rev (dropWhile is_space (rev (dropWhile is_space s)))
      in if t = [] then Some 0
         else if list_all is_digit t then Some (int (digits_value 0 t))
         else None)"

text \<open>
  \<^verbatim>\<open>parseInt(s)\<close> without a radix, \<open>None\<close> for \<^verbatim>\<open>NaN\<close>: leading blanks are skipped,
  a sign is taken, then after \<^verbatim>\<open>0x\<close> or \<^verbatim>\<open>0X\<close> the longest run of hexadecimal digits
  and otherwise the longest run of decimal digits; no digit at all is \<^verbatim>\<open>NaN\<close>.
\<close>

definition parseInt_str :: "string \<Rightarrow> int option" where
  "parseInt_str s =
     (let s1 = dropWhile is_space s;
          neg = (s1 \<noteq> [] \<and> hd s1 = CHR ''-'');
          s2 = (if s1 \<noteq> [] \<and> (hd s1 = CHR ''-'' \<or> hd s1 = CHR ''+'') then tl s1 else s1);
          hex = (take 2 s2 = ''0x'' \<or> take 2 s2 = ''0X'');
          ds = (if hex then takeWhile is_hex_digit (drop 2 s2) else takeWhile is_digit s2);
          v = (if hex then hex_value 0 ds else digits_value 0 ds)
      in if ds = [] then None
         else Some ((if neg then - 1 else 1) * int v))"

text \<open>\<^verbatim>\<open>s.split(':')\<close>\<close>

fun split_colon :: "string \<Rightarrow> string list" where
  "split_colon [] = [[]]"
| "split_colon (c # cs) =
     (if c = CHR '':'' then [] # split_colon cs
      else (case split_colon cs of
              p # ps \<Rightarrow> (c # p) # ps
            | [] \<Rightarrow> [[c]]))"

text \<open>
  \<^verbatim>\<open>const [hour, minute] = reporte_hora.split(':').map(Number)\<close>: \<open>minute\<close> is
  \<^verbatim>\<open>undefined\<close> (here \<open>None\<close>, like \<^verbatim>\<open>NaN\<close>) when there is no second part.
\<close>

definition hour_minute :: "string \<Rightarrow> int option \<times> int option" where
  "hour_minute s =
     (let parts = map Number_str (split_colon s)
      in (case parts of
            [] \<Rightarrow> (None, None)
          | [h] \<Rightarrow> (h, None)
          | h # m # rest \<Rightarrow> (h, m)))"

text \<open>\<^verbatim>\<open>minute || 0\<close>\<close>

definition or_zero :: "int option \<Rightarrow> int" where
  "or_zero m = (case m of None \<Rightarrow> 0 | Some v \<Rightarrow> v)"

subsection \<open>Dates\<close>

text \<open>
  A \<^verbatim>\<open>Date\<close> is a time value in milliseconds, or invalid (\<^verbatim>\<open>NaN\<close>). Time values are
  local time counted from local midnight of 1 January 1970, with days of 24 hours (no
  daylight-saving shifts); the range limit of time values is not modelled. The calendar
  functions follow ECMA-262 (\<^verbatim>\<open>DayFromYear\<close>, \<^verbatim>\<open>MakeDay\<close>, \<^verbatim>\<open>MakeTime\<close>,
  \<^verbatim>\<open>MakeDate\<close>); the year, month and date of a time value are given for clock readings
  from 1970 on.
\<close>

datatype date = Invalid_Date | Time int

definition msPerDay :: int where
  "msPerDay = 24 * 60 * 60 * 1000"

definition leap :: "int \<Rightarrow> bool" where
  "leap y = (y mod 4 = 0 \<and> (y mod 100 \<noteq> 0 \<or> y mod 400 = 0))"

definition days_in_year :: "int \<Rightarrow> nat" where
  "days_in_year y = (if leap y then 366 else 365)"

definition month_length :: "int \<Rightarrow> nat \<Rightarrow> nat" where
  "month_length y m =
     (if m = 1 then (if leap y then 29 else 28)
      else if m = 3 \<or> m = 5 \<or> m = 8 \<or> m = 10 then 30
      else 31)"

definition days_before_month :: "int \<Rightarrow> nat \<Rightarrow> nat" where
  "days_before_month y m = sum_list (map (month_length y) [0..<m])"

definition day_from_year :: "int \<Rightarrow> int" where
  "day_from_year y =
     365 * (y - 1970) + (y - 1969) div 4 - (y - 1901) div 100 + (y - 1601) div 400"

text \<open>
  The year containing day number \<open>n\<close> counted from 1 January of year \<open>y\<close> with the
  day within it, and likewise the month within a year.
\<close>

function year_from :: "int \<Rightarrow> nat \<Rightarrow> int \<times> nat" where
  "year_from y n =
     (if n < days_in_year y then (y, n) else year_from (y + 1) (n - days_in_year y))"
  by pat_completeness auto
termination
  by (relation "measure (\<lambda>(y, n). n)") (auto simp: days_in_year_def)

function month_from :: "int \<Rightarrow> nat \<Rightarrow> nat \<Rightarrow> nat \<times> nat" where
  "month_from y m n =
     (if 11 \<le> m \<or> n < month_length y m then (m, n)
      else month_from y (m + 1) (n - month_length y m))"
  by pat_completeness auto
termination
  by (relation "measure (\<lambda>(y, m, n). 11 - m)") auto

declare year_from.simps [simp del] month_from.simps [simp del]

definition day_number :: "int \<Rightarrow> nat" where
  "day_number t = nat (t div msPerDay)"

definition getFullYear :: "int \<Rightarrow> int" where
  "getFullYear t = fst (year_from 1970 (day_number t))"

definition getMonth :: "int \<Rightarrow> nat" where
  "getMonth t =
     (case year_from 1970 (day_number t) of (y, r) \<Rightarrow> fst (month_from y 0 r))"

definition getDate :: "int \<Rightarrow> nat" where
  "getDate t =
     (case year_from 1970 (day_number t) of (y, r) \<Rightarrow> snd (month_from y 0 r) + 1)"

text \<open>\<^verbatim>\<open>getDay()\<close>: 0 is Sunday; 1 January 1970 was a Thursday.\<close>

definition getDay :: "int \<Rightarrow> int" where
  "getDay t = (t div msPerDay + 4) mod 7"

text \<open>\<^verbatim>\<open>MakeDay(year, month, date)\<close>: months and dates out of range carry over.\<close>

definition make_day :: "int \<Rightarrow> int \<Rightarrow> int \<Rightarrow> int" where
  "make_day y m dt =
     (let ym = y + m div 12; mn = nat (m mod 12)
      in day_from_year ym + int (days_before_month ym mn) + dt - 1)"

definition make_time :: "int \<Rightarrow> int \<Rightarrow> int \<Rightarrow> int \<Rightarrow> int \<Rightarrow> int" where
  "make_time y m dt h mi = make_day y m dt * msPerDay + h * 3600000 + mi * 60000"

text \<open>\<^verbatim>\<open>new Date(year, month, date, hour, minute)\<close>; a \<^verbatim>\<open>NaN\<close> argument gives an invalid date.\<close>

definition new_Date :: "int \<Rightarrow> int \<Rightarrow> int option \<Rightarrow> int option \<Rightarrow> int \<Rightarrow> date" where
  "new_Date y m dt h mi =
     (case (dt, h) of
        (Some d, Some hr) \<Rightarrow> Time (make_time y m d hr mi)
      | _ \<Rightarrow> Invalid_Date)"

text \<open>
  \<^verbatim>\<open>today = new Date(); today.setHours(hour, minute || 0, 0, 0)\<close>. The source reads the
  clock once for \<^verbatim>\<open>now\<close> and once more for \<^verbatim>\<open>today\<close>, in the same synchronous run;
  the two readings are the one value \<open>now\<close> here.
\<close>

definition today_at :: "int \<Rightarrow> int option \<Rightarrow> int \<Rightarrow> date" where
  "today_at now h mi =
     (case h of
        None \<Rightarrow> Invalid_Date
      | Some hr \<Rightarrow> Time ((now div msPerDay) * msPerDay + hr * 3600000 + mi * 60000))"

text \<open>\<^verbatim>\<open>now > d\<close> and \<^verbatim>\<open>d > now\<close> for a date \<open>d\<close>: false when \<open>d\<close> is invalid.\<close>

definition now_after :: "int \<Rightarrow> date \<Rightarrow> bool" where
  "now_after now d = (case d of Invalid_Date \<Rightarrow> False | Time t \<Rightarrow> now > t)"

definition date_after :: "date \<Rightarrow> int \<Rightarrow> bool" where
  "date_after d now = (case d of Invalid_Date \<Rightarrow> False | Time t \<Rightarrow> t > now)"

text \<open>\<^verbatim>\<open>new Date(d.getTime() + ms)\<close>, with \<open>None\<close> for a \<^verbatim>\<open>NaN\<close> amount.\<close>

definition plus_ms :: "date \<Rightarrow> int option \<Rightarrow> date" where
  "plus_ms d ms =
     (case (d, ms) of
        (Time t, Some k) \<Rightarrow> Time (t + k)
      | _ \<Rightarrow> Invalid_Date)"

subsection \<open>The next report time\<close>

definition dayMap :: "string \<Rightarrow> int option" where
  "dayMap s =
     (if s = ''sunday'' then Some 0
      else if s = ''monday'' then Some 1
      else if s = ''tuesday'' then Some 2
      else if s = ''wednesday'' then Some 3
      else if s = ''thursday'' then Some 4
      else if s = ''friday'' then Some 5
      else if s = ''saturday'' then Some 6
      else None)"

text \<open>
  The weekly branch. \<^verbatim>\<open>daysUntilTarget = targetDay - currentDay\<close> is \<^verbatim>\<open>NaN\<close> for a day
  name outside the map, and then stays \<^verbatim>\<open>NaN\<close>.
\<close>

definition weekly_next :: "AlertConfiguration \<Rightarrow> int \<Rightarrow> date \<Rightarrow> date" where
  "weekly_next c now today =
     (let targetDay = dayMap (reporte_dia c);
          currentDay = getDay now;
          daysUntilTarget =
            (case targetDay of
               None \<Rightarrow> None
             | Some td \<Rightarrow>
                 (let du = td - currentDay
                  in if du < 0 \<or> (du = 0 \<and> now_after now today) then Some (du + 7)
                     else Some du))
      in plus_ms today (map_option (\<lambda>du. du * 24 * 60 * 60 * 1000) daysUntilTarget))"

text \<open>
  The biweekly branch. \<^verbatim>\<open>possibleDates.find(...)\<close> gives the first listed day whose
  date is after \<open>now\<close>; \<^verbatim>\<open>if (!nextBiweeklyDate)\<close> is taken when nothing was found and
  also when the day found is 0.
\<close>

definition biweekly_next :: "AlertConfiguration \<Rightarrow> int \<Rightarrow> int option \<Rightarrow> int \<Rightarrow> date" where
  "biweekly_next c now hour mi =
     (let biweeklyDay = parseInt_str (reporte_dia c);
          y = getFullYear now;
          m = int (getMonth now);
          daysInMonth = (case new_Date y (m + 1) (Some 0) (Some 0) 0 of
                           Time t \<Rightarrow> int (getDate t)
                         | Invalid_Date \<Rightarrow> 0);
          possibleDates =
            [biweeklyDay,
             map_option (\<lambda>d. d + 15) biweeklyDay,
             map_option (\<lambda>d. d + daysInMonth) biweeklyDay];
          nextBiweeklyDate =
            find (\<lambda>dt. date_after (new_Date y m dt hour mi) now) possibleDates
      in case nextBiweeklyDate of
           Some (Some dt) \<Rightarrow>
             if dt = 0 then new_Date y (m + 1) biweeklyDay hour mi
             else new_Date y m (Some dt) hour mi
         | _ \<Rightarrow> new_Date y (m + 1) biweeklyDay hour mi)"

definition monthly_next :: "AlertConfiguration \<Rightarrow> int \<Rightarrow> int option \<Rightarrow> int \<Rightarrow> date" where
  "monthly_next c now hour mi =
     (let monthlyDay = parseInt_str (reporte_dia c);
          y = getFullYear now;
          m = int (getMonth now);
          thisMonth = new_Date y m monthlyDay hour mi
      in if now_after now thisMonth then new_Date y (m + 1) monthlyDay hour mi
         else thisMonth)"

text \<open>
  \<^verbatim>\<open>calculateNextReportTime()\<close> for the held configuration at clock reading \<open>now\<close>;
  \<open>None\<close> is the returned \<^verbatim>\<open>null\<close>.
\<close>

definition calculateNextReportTime :: "AlertConfiguration option \<Rightarrow> int \<Rightarrow> date option" where
  "calculateNextReportTime currentConfig now =
     (case currentConfig of
        None \<Rightarrow> None
      | Some c \<Rightarrow>
          if \<not> reporte_reposicion_activado c then None
          else
            (case hour_minute (reporte_hora c) of
               (hour, minute) \<Rightarrow>
                 (let today = today_at now hour (or_zero minute)
                  in if reporte_frecuencia c = ''daily'' then
                       Some (if now_after now today
                             then plus_ms today (Some (24 * 60 * 60 * 1000))
                             else today)
                     else if reporte_frecuencia c = ''weekly'' then
                       Some (weekly_next c now today)
                     else if reporte_frecuencia c = ''biweekly'' then
                       Some (biweekly_next c now hour (or_zero minute))
                     else if reporte_frecuencia c = ''monthly'' then
                       Some (monthly_next c now hour (or_zero minute))
                     else None)))"

subsection \<open>The timer\<close>

text \<open>
  The two closures handed to \<^verbatim>\<open>setTimeout\<close>: the one that only calls
  \<^verbatim>\<open>scheduleNextReport\<close> again after 24 hours, and the one that runs the report and
  then calls \<^verbatim>\<open>scheduleNextReport\<close>.
\<close>

datatype callback = Bridge | Report

text \<open>
  The instance fields of the service, and the platform's table of armed timers: handle,
  callback and delay (\<open>None\<close> for a \<^verbatim>\<open>NaN\<close> delay). \<^verbatim>\<open>setTimeout\<close> arms a timer under a
  new handle; \<^verbatim>\<open>clearTimeout\<close> disarms the timer with that handle, if it is still armed.
\<close>

record scheduler =
  timeoutId :: "nat option"
  isActive :: bool
  currentConfig :: "AlertConfiguration option"
  timers :: "(nat \<times> callback \<times> int option) list"
  next_handle :: nat

definition setTimeout :: "callback \<Rightarrow> int option \<Rightarrow> scheduler \<Rightarrow> nat \<times> scheduler" where
  "setTimeout cb delay s =
     (next_handle s,
      s\<lparr>timers := timers s @ [(next_handle s, cb, delay)],
        next_handle := Suc (next_handle s)\<rparr>)"

definition clearTimeout :: "nat \<Rightarrow> scheduler \<Rightarrow> scheduler" where
  "clearTimeout h s = s\<lparr>timers := filter (\<lambda>e. fst e \<noteq> h) (timers s)\<rparr>"

text \<open>\<^verbatim>\<open>if (this.timeoutId) { clearTimeout(this.timeoutId); this.timeoutId = null; }\<close>\<close>

definition clear_current :: "scheduler \<Rightarrow> scheduler" where
  "clear_current s =
     (case timeoutId s of
        None \<Rightarrow> s
      | Some h \<Rightarrow> (clearTimeout h s)\<lparr>timeoutId := None\<rparr>)"

text \<open>\<^verbatim>\<open>scheduleTimeout\<close>; \<open>None\<close> is a \<^verbatim>\<open>NaN\<close> time, for which the comparison is false.\<close>

definition scheduleTimeout :: "int option \<Rightarrow> scheduler \<Rightarrow> scheduler" where
  "scheduleTimeout timeUntilReport s =
     (if (case timeUntilReport of None \<Rightarrow> False | Some t \<Rightarrow> t > 2147483647)
      then (case setTimeout Bridge (Some (24 * 60 * 60 * 1000)) s of
              (h, s1) \<Rightarrow> s1\<lparr>timeoutId := Some h\<rparr>)
      else (case setTimeout Report timeUntilReport s of
              (h, s1) \<Rightarrow> s1\<lparr>timeoutId := Some h\<rparr>))"

text \<open>
  \<^verbatim>\<open>scheduleNextReport\<close> at clock reading \<open>now\<close>; its own clock reading and those of
  \<^verbatim>\<open>calculateNextReportTime\<close>, taken in the same synchronous run, are that one value.
  For an invalid date \<^verbatim>\<open>timeUntilReport\<close> is \<^verbatim>\<open>NaN\<close>, the test
  \<^verbatim>\<open>timeUntilReport <= 0\<close> is false and the timer is armed with that delay.
\<close>

definition scheduleNextReport :: "int \<Rightarrow> scheduler \<Rightarrow> scheduler" where
  "scheduleNextReport now s =
     (let s1 = clear_current s
      in case calculateNextReportTime (currentConfig s1) now of
           None \<Rightarrow> s1
         | Some Invalid_Date \<Rightarrow> scheduleTimeout None s1
         | Some (Time nextReportTime) \<Rightarrow>
             (let timeUntilReport = nextReportTime - now
              in if timeUntilReport \<le> 0 then
                   (let tomorrow = nextReportTime + 24 * 60 * 60 * 1000;
                        timeUntilTomorrow = tomorrow - now
                    in if timeUntilTomorrow > 0 then scheduleTimeout (Some timeUntilTomorrow) s1
                       else s1)
                 else scheduleTimeout (Some timeUntilReport) s1))"

definition updateConfiguration :: "AlertConfiguration \<Rightarrow> int \<Rightarrow> scheduler \<Rightarrow> scheduler" where
  "updateConfiguration newConfig now s =
     (let s1 = clear_current (s\<lparr>currentConfig := Some newConfig\<rparr>)
      in if reporte_reposicion_activado newConfig then scheduleNextReport now s1 else s1)"

definition stop :: "scheduler \<Rightarrow> scheduler" where
  "stop s = (clear_current s)\<lparr>isActive := False\<rparr>"

text \<open>
  The runs of the service between two suspensions, as the event loop executes them:
  \<^item> \<open>Load_Done c\<close>: \<^verbatim>\<open>loadConfiguration\<close> gets its answer and stores it (\<open>None\<close> for
    \<^verbatim>\<open>null\<close> or for a failed load); it is awaited by \<^verbatim>\<open>initialize\<close> and by
    \<^verbatim>\<open>executeScheduledReport\<close>;
  \<^item> \<open>Initialize_Rest now\<close>: the rest of \<^verbatim>\<open>initialize\<close> after that await;
  \<^item> \<open>Timer_Fires h now\<close>: the platform fires the timer with handle \<open>h\<close>, which leaves
    the table; the bridge callback calls \<^verbatim>\<open>scheduleNextReport\<close> at once, the report
    callback starts \<^verbatim>\<open>executeScheduledReport\<close> and is suspended; a handle that is not
    armed does not fire;
  \<^item> \<open>Report_Done now\<close>: the report callback resumes after
    \<^verbatim>\<open>await executeScheduledReport()\<close> and calls \<^verbatim>\<open>scheduleNextReport\<close>;
  \<^item> \<open>Update_Configuration c now\<close> and \<open>Stop\<close>: the two public calls.
\<close>

datatype event =
    Load_Done "AlertConfiguration option"
  | Initialize_Rest int
  | Timer_Fires nat int
  | Report_Done int
  | Update_Configuration AlertConfiguration int
  | Stop

definition fire :: "nat \<Rightarrow> int \<Rightarrow> scheduler \<Rightarrow> scheduler" where
  "fire h now s =
     (case find (\<lambda>e. fst e = h) (timers s) of
        None \<Rightarrow> s
      | Some (h', cb, delay) \<Rightarrow>
          (let s1 = s\<lparr>timers := filter (\<lambda>e. fst e \<noteq> h) (timers s)\<rparr>
           in case cb of
                Bridge \<Rightarrow> scheduleNextReport now s1
              | Report \<Rightarrow> s1))"

fun step :: "event \<Rightarrow> scheduler \<Rightarrow> scheduler" where
  "step (Load_Done c) s = s\<lparr>currentConfig := c\<rparr>"
| "step (Initialize_Rest now) s =
     (let s1 = (case currentConfig s of
                  None \<Rightarrow> s
                | Some c \<Rightarrow> if reporte_reposicion_activado c then scheduleNextReport now s
                            else s)
      in s1\<lparr>isActive := True\<rparr>)"
| "step (Timer_Fires h now) s = fire h now s"
| "step (Report_Done now) s = scheduleNextReport now s"
| "step (Update_Configuration c now) s = updateConfiguration c now s"
| "step Stop s = stop s"

fun run :: "event list \<Rightarrow> scheduler \<Rightarrow> scheduler" where
  "run [] s = s"
| "run (e # es) s = run es (step e s)"

text \<open>
  At most one timer is armed, and the service holds the handle of the one that is.
\<close>

definition one_timer :: "scheduler \<Rightarrow> bool" where
  "one_timer s =
     (timers s = [] \<or> (\<exists>h cb dl. timers s = [(h, cb, dl)] \<and> timeoutId s = Some h))"

text \<open>The service as constructed: no timer, inactive, no configuration.\<close>

definition new_scheduler :: scheduler where
  "new_scheduler =
     \<lparr>timeoutId = None, isActive = False, currentConfig = None, timers = [],
      next_handle = 1\<rparr>"

text \<open>Three configurations as the settings screen writes them.\<close>

definition weekly_monday_nine :: AlertConfiguration where
  "weekly_monday_nine =
     \<lparr>reporte_reposicion_activado = True, reporte_frecuencia = ''weekly'',
      reporte_dia = ''monday'', reporte_hora = ''09:00''\<rparr>"

definition biweekly_20_nine :: AlertConfiguration where
  "biweekly_20_nine =
     \<lparr>reporte_reposicion_activado = True, reporte_frecuencia = ''biweekly'',
      reporte_dia = ''20'', reporte_hora = ''09:00''\<rparr>"

definition reports_off :: AlertConfiguration where
  "reports_off =
     \<lparr>reporte_reposicion_activado = False, reporte_frecuencia = ''weekly'',
      reporte_dia = ''monday'', reporte_hora = ''09:00''\<rparr>"

section \<open>Properties of the offline service\<close>

subsection \<open>Reading the queue through the state updates\<close>

lemma setPending_accepts:
  "\<not> storage_full w \<Longrightarrow> setPending ts w = Inr (w\<lparr>pending_item := Some (Json ts)\<rparr>)"
  by (simp add: setPending_def)

lemma setPending_refuses: "storage_full w \<Longrightarrow> setPending ts w = Inl QuotaExceededError"
  by (simp add: setPending_def)

lemma getPending_stored [simp]:
  "getPendingTransactions (w\<lparr>pending_item := Some (Json ts)\<rparr>) = Value ts"
  by (simp add: getPendingTransactions_def)

lemma getPending_send [simp]: "getPendingTransactions (send c w) = getPendingTransactions w"
  by (simp add: getPendingTransactions_def send_def)

lemma getPending_other_fields [simp]:
  "getPendingTransactions (w\<lparr>syncInProgress := b\<rparr>) = getPendingTransactions w"
  "getPendingTransactions (w\<lparr>dequeued := d\<rparr>) = getPendingTransactions w"
  "getPendingTransactions (w\<lparr>net_log := l\<rparr>) = getPendingTransactions w"
  by (simp_all add: getPendingTransactions_def)

lemma storage_full_send [simp]: "storage_full (send c w) = storage_full w"
  by (simp add: send_def)

lemma addPending_accepts:
  assumes "\<not> storage_full w" and "getPendingTransactions w = Value q"
  shows "addPendingTransaction tx t_id rnd t_created w =
           Inr (generateTransactionId t_id rnd,
                w\<lparr>pending_item :=
                    Some (Json (q @ [\<lparr>payload = tx, txid = generateTransactionId t_id rnd,
                                      createdAt = t_created, attempts = 0\<rparr>]))\<rparr>)"
  using assms by (simp add: addPendingTransaction_def Let_def setPending_def)

lemma addPending_throws:
  assumes "storage_full w \<or> getPendingTransactions w = Null_Value
             \<or> getPendingTransactions w = Other_Value"
  shows "addPendingTransaction tx t_id rnd t_created w =
           Inl (if getPendingTransactions w = Null_Value
                   \<or> getPendingTransactions w = Other_Value
                then TypeError else QuotaExceededError)"
  using assms
  by (cases "getPendingTransactions w")
     (auto simp: addPendingTransaction_def Let_def setPending_def)

lemma removePending_accepts:
  assumes "\<not> storage_full w" and "getPendingTransactions w = Value q"
  shows "removePendingTransaction i w =
           w\<lparr>pending_item := Some (Json (filter (\<lambda>t. txid t \<noteq> i) q)),
             dequeued := dequeued w @ [i]\<rparr>"
  using assms by (simp add: removePendingTransaction_def setPending_def)

lemma incrementAttempts_accepts:
  assumes "\<not> storage_full w" and "getPendingTransactions w = Value q"
  shows "incrementTransactionAttempts i w =
           (case bump_first i q of
              None \<Rightarrow> w
            | Some q' \<Rightarrow> w\<lparr>pending_item := Some (Json q')\<rparr>)"
  using assms by (simp add: incrementTransactionAttempts_def setPending_def split: option.splits)

text \<open>
  Claim C10. When the pending-transactions key is missing or holds text that
  \<^verbatim>\<open>JSON.parse\<close> rejects, \<^verbatim>\<open>getPendingTransactions\<close> is the empty list, the count
  is 0, a sync pass returns \<open>{synced: 0, failed: 0}\<close> and leaves the whole state as it
  was (the bad text stays, nothing is raised), and the next
  \<^verbatim>\<open>addPendingTransaction\<close> replaces the text by a list of just the new entry (when the
  storage refuses the write, that call throws the storage's error instead).
\<close>

theorem corrupt_queue_degrades_to_empty:
  assumes "pending_item w = None \<or> pending_item w = Some Unparsable"
  shows "getPendingTransactions w = Value []
       \<and> getPendingTransactionCount w = Inr (Some 0)
       \<and> syncPendingTransactions remote w = (Inr \<lparr>synced = 0, failed = 0\<rparr>, w)
       \<and> (\<not> storage_full w \<longrightarrow>
            addPendingTransaction tx t_id rnd t_created w =
              Inr (generateTransactionId t_id rnd,
                   w\<lparr>pending_item :=
                       Some (Json [\<lparr>payload = tx, txid = generateTransactionId t_id rnd,
                                    createdAt = t_created, attempts = 0\<rparr>])\<rparr>))
       \<and> (storage_full w \<longrightarrow>
            addPendingTransaction tx t_id rnd t_created w = Inl QuotaExceededError)"
proof -
  have e: "getPendingTransactions w = Value []"
    using assms by (auto simp: getPendingTransactions_def)
  have s: "syncPendingTransactions remote w = (Inr \<lparr>synced = 0, failed = 0\<rparr>, w)"
    by (cases "syncInProgress w")
       (simp_all add: syncPendingTransactions_def sync_begin_def e Let_def)
  have a: "\<not> storage_full w \<longrightarrow>
            addPendingTransaction tx t_id rnd t_created w =
              Inr (generateTransactionId t_id rnd,
                   w\<lparr>pending_item :=
                       Some (Json [\<lparr>payload = tx, txid = generateTransactionId t_id rnd,
                                    createdAt = t_created, attempts = 0\<rparr>])\<rparr>)"
    using addPending_accepts [OF _ e] by simp
  have b: "storage_full w \<longrightarrow>
            addPendingTransaction tx t_id rnd t_created w = Inl QuotaExceededError"
    using addPending_throws [of w] e by simp
  show ?thesis using e s a b by (simp add: getPendingTransactionCount_def)
qed

theorem corrupt_queue_degrades_to_empty_witness:
  "pending_item (fresh_world\<lparr>pending_item := Some Unparsable\<rparr>) = Some Unparsable
   \<and> getPendingTransactions (fresh_world\<lparr>pending_item := Some Unparsable\<rparr>) = Value []
   \<and> getPendingTransactionCount (fresh_world\<lparr>pending_item := Some Unparsable\<rparr>) = Inr (Some 0)
   \<and> syncPendingTransactions (\<lambda>k. Response 200) (fresh_world\<lparr>pending_item := Some Unparsable\<rparr>)
       = (Inr \<lparr>synced = 0, failed = 0\<rparr>, fresh_world\<lparr>pending_item := Some Unparsable\<rparr>)
   \<and> \<not> storage_full (fresh_world\<lparr>pending_item := Some Unparsable\<rparr>)
   \<and> addPendingTransaction ''sale'' 1700000000000 ''k3j9x2q1z'' 1700000000001
         (fresh_world\<lparr>pending_item := Some Unparsable\<rparr>)
       = Inr (generateTransactionId 1700000000000 ''k3j9x2q1z'',
              fresh_world\<lparr>pending_item :=
                Some (Json [\<lparr>payload = ''sale'',
                             txid = generateTransactionId 1700000000000 ''k3j9x2q1z'',
                             createdAt = 1700000000001, attempts = 0\<rparr>])\<rparr>)
   \<and> storage_full (fresh_world\<lparr>pending_item := Some Unparsable, storage_full := True\<rparr>)
   \<and> addPendingTransaction ''sale'' 1700000000000 ''k3j9x2q1z'' 1700000000001
         (fresh_world\<lparr>pending_item := Some Unparsable, storage_full := True\<rparr>)
       = Inl QuotaExceededError"
  using corrupt_queue_degrades_to_empty
          [where w = "fresh_world\<lparr>pending_item := Some Unparsable\<rparr>"
             and remote = "\<lambda>k. Response 200" and tx = "''sale''" and t_id = 1700000000000
             and rnd = "''k3j9x2q1z''" and t_created = 1700000000001]
        corrupt_queue_degrades_to_empty
          [where w = "fresh_world\<lparr>pending_item := Some Unparsable, storage_full := True\<rparr>"
             and remote = "\<lambda>k. Response 200" and tx = "''sale''" and t_id = 1700000000000
             and rnd = "''k3j9x2q1z''" and t_created = 1700000000001]
  by (simp add: fresh_world_def)

subsection \<open>Immediate commit or enqueue\<close>

text \<open>
  Claim C3, as amended. Online with an ok response the result is
  \<open>{success: true, offline: false}\<close>, the queue key untouched, one request made. In
  the two other cases (online with a status outside 200..299 or a rejected fetch, after
  that one request; offline, with no request at all) the call falls back to
  \<^verbatim>\<open>addPendingTransaction\<close>: when the stored queue reads as a list \<open>q\<close> and the storage
  accepts the write, the transaction is appended with \<open>attempts = 0\<close> and the result is
  \<open>{success: true, offline: true}\<close> with the new id; when the enqueue throws (the
  stored text parses to something that is not a list, or the write is refused) the call
  fails with that error and the queue key is left as it was.
\<close>

theorem processTransaction_outcomes:
  "(case processTransaction remote tx t_id rnd t_created w of
      (res, w') \<Rightarrow>
        net_log w' = net_log w @ (if onLine w then [Post_Transaction tx] else [])
      \<and> (onLine w \<and> ok (remote (length (net_log w))) \<longrightarrow>
            res = Inr \<lparr>success = True, offline = False, transactionId = None\<rparr>
          \<and> pending_item w' = pending_item w)
      \<and> (\<not> (onLine w \<and> ok (remote (length (net_log w))))
          \<and> \<not> storage_full w \<and> getPendingTransactions w = Value q \<longrightarrow>
            res = Inr \<lparr>success = True, offline = True,
                       transactionId = Some (generateTransactionId t_id rnd)\<rparr>
          \<and> getPendingTransactions w' =
              Value (q @ [\<lparr>payload = tx, txid = generateTransactionId t_id rnd,
                           createdAt = t_created, attempts = 0\<rparr>]))
      \<and> (\<not> (onLine w \<and> ok (remote (length (net_log w))))
          \<and> (getPendingTransactions w = Null_Value \<or> getPendingTransactions w = Other_Value)
          \<longrightarrow> res = Inl TypeError \<and> pending_item w' = pending_item w)
      \<and> (\<not> (onLine w \<and> ok (remote (length (net_log w))))
          \<and> storage_full w \<and> getPendingTransactions w = Value q \<longrightarrow>
            res = Inl QuotaExceededError \<and> pending_item w' = pending_item w))"
proof (cases "onLine w \<and> ok (remote (length (net_log w)))")
  case True
  then show ?thesis
    by (simp add: processTransaction_def Let_def send_def)
next
  case False
  let ?w1 = "if onLine w then send (Post_Transaction tx) w else w"
  have g: "getPendingTransactions ?w1 = getPendingTransactions w"
    and sf: "storage_full ?w1 = storage_full w"
    and pi: "pending_item ?w1 = pending_item w"
    and nl: "net_log ?w1 = net_log w @ (if onLine w then [Post_Transaction tx] else [])"
    by (simp_all add: send_def)
  have p: "processTransaction remote tx t_id rnd t_created w =
             (case addPendingTransaction tx t_id rnd t_created ?w1 of
                Inl e \<Rightarrow> (Inl e, ?w1)
              | Inr (i, w2) \<Rightarrow>
                  (Inr \<lparr>success = True, offline = True, transactionId = Some i\<rparr>, w2))"
    using False by (auto simp: processTransaction_def Let_def)
  show ?thesis
  proof (cases "storage_full w \<or> getPendingTransactions w = Null_Value
                  \<or> getPendingTransactions w = Other_Value")
    case True
    then have "storage_full ?w1 \<or> getPendingTransactions ?w1 = Null_Value
                 \<or> getPendingTransactions ?w1 = Other_Value"
      using g sf by simp
    from addPending_throws [OF this, of tx t_id rnd t_created]
    have a: "addPendingTransaction tx t_id rnd t_created ?w1 =
               Inl (if getPendingTransactions w = Null_Value
                       \<or> getPendingTransactions w = Other_Value
                    then TypeError else QuotaExceededError)"
      using g by simp
    show ?thesis
      unfolding p a using False True pi nl by auto
  next
    case ok: False
    then obtain q' where q': "getPendingTransactions w = Value q'"
      by (cases "getPendingTransactions w") auto
    from ok have nf: "\<not> storage_full ?w1" using sf by simp
    have gq: "getPendingTransactions ?w1 = Value q'" using g q' by simp
    note a = addPending_accepts [OF nf gq, of tx t_id rnd t_created]
    show ?thesis
      unfolding p a using False ok q' nl by (auto simp: send_def)
  qed
qed

theorem processTransaction_outcomes_witness:
  "(onLine fresh_world \<and> ok (Response 200)
      \<and> processTransaction (\<lambda>k. Response 200) ''sale'' 1700000000000 ''k3j9x2q1z''
            1700000000001 fresh_world
          = (Inr \<lparr>success = True, offline = False, transactionId = None\<rparr>,
             fresh_world\<lparr>net_log := [Post_Transaction ''sale'']\<rparr>))
   \<and> (\<not> (onLine fresh_world \<and> ok (Response 503)) \<and> \<not> storage_full fresh_world
      \<and> getPendingTransactions fresh_world = Value []
      \<and> fst (processTransaction (\<lambda>k. Response 503) ''sale'' 1700000000000 ''k3j9x2q1z''
            1700000000001 fresh_world)
          = Inr \<lparr>success = True, offline = True,
                 transactionId = Some (generateTransactionId 1700000000000 ''k3j9x2q1z'')\<rparr>)
   \<and> (\<not> (onLine (fresh_world\<lparr>onLine := False, pending_item := Some Json_Null\<rparr>)
            \<and> ok (Response 200))
      \<and> getPendingTransactions (fresh_world\<lparr>onLine := False, pending_item := Some Json_Null\<rparr>)
          = Null_Value
      \<and> fst (processTransaction (\<lambda>k. Response 200) ''sale'' 1700000000000 ''k3j9x2q1z''
            1700000000001 (fresh_world\<lparr>onLine := False, pending_item := Some Json_Null\<rparr>))
          = Inl TypeError)
   \<and> (\<not> (onLine (fresh_world\<lparr>storage_full := True\<rparr>) \<and> ok Network_Error)
      \<and> storage_full (fresh_world\<lparr>storage_full := True\<rparr>)
      \<and> getPendingTransactions (fresh_world\<lparr>storage_full := True\<rparr>) = Value []
      \<and> processTransaction (\<lambda>k. Network_Error) ''sale'' 1700000000000 ''k3j9x2q1z''
            1700000000001 (fresh_world\<lparr>storage_full := True\<rparr>)
          = (Inl QuotaExceededError,
             fresh_world\<lparr>storage_full := True, net_log := [Post_Transaction ''sale'']\<rparr>))"
  using processTransaction_outcomes
          [where remote = "\<lambda>k. Response 200" and tx = "''sale''" and t_id = 1700000000000
             and rnd = "''k3j9x2q1z''" and t_created = 1700000000001 and w = fresh_world
             and q = "[]"]
        processTransaction_outcomes
          [where remote = "\<lambda>k. Response 503" and tx = "''sale''" and t_id = 1700000000000
             and rnd = "''k3j9x2q1z''" and t_created = 1700000000001 and w = fresh_world
             and q = "[]"]
        processTransaction_outcomes
          [where remote = "\<lambda>k. Response 200" and tx = "''sale''" and t_id = 1700000000000
             and rnd = "''k3j9x2q1z''" and t_created = 1700000000001
             and w = "fresh_world\<lparr>onLine := False, pending_item := Some Json_Null\<rparr>"
             and q = "[]"]
        processTransaction_outcomes
          [where remote = "\<lambda>k. Network_Error" and tx = "''sale''" and t_id = 1700000000000
             and rnd = "''k3j9x2q1z''" and t_created = 1700000000001
             and w = "fresh_world\<lparr>storage_full := True\<rparr>" and q = "[]"]
  by (simp add: fresh_world_def processTransaction_def addPendingTransaction_def Let_def
        send_def setPending_def getPendingTransactions_def)

text \<open>
  Claim C3 as stated fails when the fallback enqueue throws. Offline, with a storage that
  refuses writes, the call fails with the storage's error and nothing is queued; online
  with a rejected fetch and the same storage, likewise.
\<close>

theorem processTransaction_rejects_counterexample:
  "processTransaction (always (Response 200)) ''sale'' 1700000000000 ''k3j9x2q1z'' 1700000000001
       (fresh_world\<lparr>onLine := False, storage_full := True\<rparr>)
     = (Inl QuotaExceededError, fresh_world\<lparr>onLine := False, storage_full := True\<rparr>)
   \<and> fst (processTransaction (always Network_Error) ''sale'' 1700000000000 ''k3j9x2q1z''
            1700000000001 (fresh_world\<lparr>storage_full := True\<rparr>))
     = Inl QuotaExceededError"
  by (simp add: fresh_world_def processTransaction_def addPendingTransaction_def Let_def
        send_def setPending_def getPendingTransactions_def always_def)

subsection \<open>Draining in enqueue order\<close>

lemma enqueue_all_queue:
  "enqueue_all es w = Inr (ids, w') \<Longrightarrow> getPendingTransactions w = Value q \<Longrightarrow>
     getPendingTransactions w' =
       Value (q @ map (\<lambda>(tx, t_id, rnd, t_created).
                        \<lparr>payload = tx, txid = generateTransactionId t_id rnd,
                         createdAt = t_created, attempts = 0\<rparr>) es)
   \<and> ids = map (\<lambda>(tx, t_id, rnd, t_created). generateTransactionId t_id rnd) es
   \<and> syncInProgress w' = syncInProgress w \<and> dequeued w' = dequeued w
   \<and> storage_full w' = storage_full w
   \<and> (es \<noteq> [] \<longrightarrow> \<not> storage_full w)"
proof (induction es arbitrary: w ids w' q)
  case Nil
  then show ?case by simp
next
  case (Cons e es)
  obtain tx t_id rnd t_created where e: "e = (tx, t_id, rnd, t_created)"
    by (cases e) auto
  have nf: "\<not> storage_full w"
  proof
    assume "storage_full w"
    then have "addPendingTransaction tx t_id rnd t_created w = Inl QuotaExceededError"
      using addPending_throws [of w tx t_id rnd t_created] Cons.prems(2) by simp
    with Cons.prems(1) e show False by simp
  qed
  let ?t = "\<lparr>payload = tx, txid = generateTransactionId t_id rnd,
             createdAt = t_created, attempts = 0::nat\<rparr>"
  let ?w1 = "w\<lparr>pending_item := Some (Json (q @ [?t]))\<rparr>"
  have a: "addPendingTransaction tx t_id rnd t_created w
             = Inr (generateTransactionId t_id rnd, ?w1)"
    by (rule addPending_accepts [OF nf Cons.prems(2)])
  from Cons.prems(1) e a obtain ids' where
    r: "enqueue_all es ?w1 = Inr (ids', w')" and i: "ids = generateTransactionId t_id rnd # ids'"
    by (auto split: sum.splits)
  have g1: "getPendingTransactions ?w1 = Value (q @ [?t])" by simp
  from Cons.IH [OF r g1] nf show ?case
    by (simp add: i e)
qed

lemma sync_one_ok:
  assumes "ok (remote (length (net_log w)))"
  shows "sync_one remote t (w, s, f) =
           (removePendingTransaction (txid t) (send (Post_Pending t) w), s + 1, f)"
  using assms by (cases "remote (length (net_log w))") (simp_all add: sync_one_def sync_settle_def)

lemma sync_loop_all_ok:
  assumes "\<forall>k. ok (remote k)"
  shows "\<not> storage_full w \<Longrightarrow> getPendingTransactions w = Value q \<Longrightarrow>
         \<exists>w'. sync_loop remote ts (w, s, f) = (w', s + length ts, f)
            \<and> dequeued w' = dequeued w @ map txid ts
            \<and> getPendingTransactions w' =
                Value (filter (\<lambda>t. txid t \<notin> set (map txid ts)) q)
            \<and> syncInProgress w' = syncInProgress w"
proof (induction ts arbitrary: w s q)
  case Nil
  then show ?case by simp
next
  case (Cons t ts)
  let ?ws = "send (Post_Pending t) w"
  let ?w1 = "removePendingTransaction (txid t) ?ws"
  have step: "sync_one remote t (w, s, f) = (?w1, s + 1, f)"
    using assms by (simp add: sync_one_ok)
  have nfs: "\<not> storage_full ?ws" and gs: "getPendingTransactions ?ws = Value q"
    using Cons.prems by simp_all
  have w1eq: "?w1 = ?ws\<lparr>pending_item := Some (Json (filter (\<lambda>u. txid u \<noteq> txid t) q)),
                        dequeued := dequeued ?ws @ [txid t]\<rparr>"
    by (rule removePending_accepts [OF nfs gs])
  have w1: "dequeued ?w1 = dequeued w @ [txid t]"
    "getPendingTransactions ?w1 = Value (filter (\<lambda>u. txid u \<noteq> txid t) q)"
    "syncInProgress ?w1 = syncInProgress w" "\<not> storage_full ?w1"
    unfolding w1eq using Cons.prems(1) by (simp_all add: send_def)
  from Cons.IH [OF w1(4) w1(2), of "s + 1"] obtain w' where
    IH: "sync_loop remote ts (?w1, s + 1, f) = (w', s + 1 + length ts, f)"
        "dequeued w' = dequeued ?w1 @ map txid ts"
        "getPendingTransactions w' =
           Value (filter (\<lambda>t. txid t \<notin> set (map txid ts)) (filter (\<lambda>u. txid u \<noteq> txid t) q))"
        "syncInProgress w' = syncInProgress ?w1"
    by blast
  have "filter (\<lambda>u. txid u \<notin> set (map txid ts)) (filter (\<lambda>u. txid u \<noteq> txid t) q)
        = filter (\<lambda>u. txid u \<notin> set (map txid (t # ts))) q"
    by (auto intro: filter_cong)
  with IH w1 step show ?case by simp
qed

text \<open>
  Claim C4. After enqueue calls on an empty queue that returned the ids \<open>ids\<close> in call
  order, a sync pass in which every commit succeeds returns
  \<open>{synced: length ids, failed: 0}\<close>, removes the entries in exactly the order
  \<open>ids\<close>, and leaves the queue empty.
\<close>

theorem queue_fifo_drain:
  assumes empty: "getPendingTransactions w0 = Value []"
      and idle: "\<not> syncInProgress w0"
      and allok: "\<forall>k. ok (remote k)"
      and enq: "enqueue_all es w0 = Inr (ids, w)"
  shows "\<exists>w'. syncPendingTransactions remote w = (Inr \<lparr>synced = length ids, failed = 0\<rparr>, w')
            \<and> dequeued w' = dequeued w @ ids
            \<and> getPendingTransactions w' = Value []
            \<and> length ids = length es"
proof -
  let ?mk = "\<lambda>(tx, t_id, rnd, t_created).
               \<lparr>payload = tx, txid = generateTransactionId t_id rnd,
                createdAt = t_created, attempts = 0::nat\<rparr>"
  let ?p = "map ?mk es"
  from enqueue_all_queue [OF enq empty] idle have
    q: "getPendingTransactions w = Value ?p"
    and ids: "ids = map (\<lambda>(tx, t_id, rnd, t_created). generateTransactionId t_id rnd) es"
    and fl: "\<not> syncInProgress w"
    and nf: "es \<noteq> [] \<longrightarrow> \<not> storage_full w"
    by auto
  have ids': "map txid ?p = ids"
    by (simp add: ids split_def)
  show ?thesis
  proof (cases es)
    case Nil
    with q ids fl show ?thesis
      by (simp add: syncPendingTransactions_def sync_begin_def Let_def)
  next
    case (Cons e es')
    then have ne: "length ?p \<noteq> 0" by simp
    let ?w1 = "w\<lparr>syncInProgress := True\<rparr>"
    have nf1: "\<not> storage_full ?w1" using nf Cons by simp
    have q1: "getPendingTransactions ?w1 = Value ?p" using q by simp
    have b: "sync_begin w = Running ?w1 ?p"
      using fl q1 ne by (simp add: sync_begin_def Let_def)
    from sync_loop_all_ok [OF allok nf1 q1, of ?p 0 0]
    obtain w2 where
      l: "sync_loop remote ?p (?w1, 0, 0) = (w2, length ?p, 0)"
      and d: "dequeued w2 = dequeued ?w1 @ map txid ?p"
      and g: "getPendingTransactions w2 =
               Value (filter (\<lambda>t. txid t \<notin> set (map txid ?p)) ?p)"
      by auto
    have "filter (\<lambda>t. txid t \<notin> set (map txid ?p)) ?p = []"
      by (simp add: filter_empty_conv)
    with g have g': "getPendingTransactions w2 = Value []" by simp
    have len: "length ?p = length ids" "length ids = length es"
      using ids by simp_all
    have "syncPendingTransactions remote w
            = (Inr \<lparr>synced = length ids, failed = 0\<rparr>, w2\<lparr>syncInProgress := False\<rparr>)"
      unfolding syncPendingTransactions_def b using l len by (simp add: sync_finish_def)
    moreover have "dequeued (w2\<lparr>syncInProgress := False\<rparr>) = dequeued w @ ids"
      using d ids' by simp
    moreover have "getPendingTransactions (w2\<lparr>syncInProgress := False\<rparr>) = Value []"
      using g' by simp
    ultimately show ?thesis using len by blast
  qed
qed

theorem queue_fifo_drain_witness:
  "\<exists>ids w w'.
       enqueue_all [(''sale'', 1700000000000, ''aaa'', 1700000000000),
                    (''entry'', 1700000000001, ''bbb'', 1700000000002)] fresh_world
         = Inr (ids, w)
     \<and> ids = [generateTransactionId 1700000000000 ''aaa'',
              generateTransactionId 1700000000001 ''bbb'']
     \<and> syncPendingTransactions (\<lambda>k. Response 200) w = (Inr \<lparr>synced = 2, failed = 0\<rparr>, w')
     \<and> dequeued w' = ids
     \<and> getPendingTransactions w' = Value []"
proof -
  let ?es = "[(''sale'', 1700000000000, ''aaa'', 1700000000000),
              (''entry'', 1700000000001, ''bbb'', 1700000000002)]"
  let ?ids = "[generateTransactionId 1700000000000 ''aaa'',
               generateTransactionId 1700000000001 ''bbb'']"
  have h1: "getPendingTransactions fresh_world = Value []"
    by (simp add: fresh_world_def getPendingTransactions_def)
  have h2: "\<not> syncInProgress fresh_world"
    by (simp add: fresh_world_def)
  have h3: "\<forall>k::nat. ok (Response 200)"
    by simp
  obtain w where h4: "enqueue_all ?es fresh_world = Inr (?ids, w)" and d: "dequeued w = []"
    by (simp add: addPendingTransaction_def Let_def setPending_def fresh_world_def
          getPendingTransactions_def)
  from queue_fifo_drain [OF h1 h2 h3 h4] d h4 show ?thesis
    by (auto simp: numeral_2_eq_2)
qed

subsection \<open>Passes in which every commit fails\<close>

lemma failing_pass:
  assumes idle: "\<not> syncInProgress w"
      and accepts: "\<not> storage_full w"
      and single: "getPendingTransactions w = Value [t]"
      and fail: "\<not> ok r"
  shows "\<exists>w'. syncPendingTransactions (\<lambda>k. r) w =
               (Inr \<lparr>synced = 0,
                     failed = (if r \<noteq> Network_Error \<and> 5 \<le> attempts t then 0 else 1)\<rparr>, w')
            \<and> \<not> syncInProgress w' \<and> \<not> storage_full w'
            \<and> getPendingTransactions w' =
                Value (if r \<noteq> Network_Error \<and> 5 \<le> attempts t then []
                       else [t\<lparr>attempts := attempts t + 1\<rparr>])"
proof -
  let ?w1 = "w\<lparr>syncInProgress := True\<rparr>"
  let ?ws = "send (Post_Pending t) ?w1"
  have b: "sync_begin w = Running ?w1 [t]"
    using idle single by (simp add: sync_begin_def Let_def)
  have nfs: "\<not> storage_full ?ws" and gs: "getPendingTransactions ?ws = Value [t]"
    using accepts single by simp_all
  have inc: "incrementTransactionAttempts (txid t) ?ws
               = ?ws\<lparr>pending_item := Some (Json [t\<lparr>attempts := Suc (attempts t)\<rparr>])\<rparr>"
    using incrementAttempts_accepts [OF nfs gs, of "txid t"] by simp
  let ?wi = "?ws\<lparr>pending_item := Some (Json [t\<lparr>attempts := Suc (attempts t)\<rparr>])\<rparr>"
  have nfi: "\<not> storage_full ?wi"
    and gi: "getPendingTransactions ?wi = Value [t\<lparr>attempts := Suc (attempts t)\<rparr>]"
    using accepts by simp_all
  have rem: "removePendingTransaction (txid t) ?wi
               = ?wi\<lparr>pending_item := Some (Json []), dequeued := dequeued ?wi @ [txid t]\<rparr>"
    using removePending_accepts [OF nfi gi, of "txid t"] by simp
  show ?thesis
  proof (cases r)
    case Network_Error
    then show ?thesis
      unfolding syncPendingTransactions_def b
      using accepts by (simp add: sync_one_def sync_settle_def sync_finish_def inc)
  next
    case (Response c)
    then show ?thesis
      unfolding syncPendingTransactions_def b
      using accepts fail
      by (simp add: sync_one_def sync_settle_def sync_finish_def inc rem Let_def)
  qed
qed

lemma failing_passes:
  assumes fail: "\<not> ok r"
      and below: "r = Network_Error \<or> attempts t + n \<le> 5"
  shows "\<not> syncInProgress w \<Longrightarrow> \<not> storage_full w \<Longrightarrow>
         getPendingTransactions w = Value [t] \<Longrightarrow>
         \<exists>w'. sync_passes n (\<lambda>k. r) w = (replicate n (Inr \<lparr>synced = 0, failed = 1\<rparr>), w')
            \<and> \<not> syncInProgress w' \<and> \<not> storage_full w'
            \<and> getPendingTransactions w' = Value [t\<lparr>attempts := attempts t + n\<rparr>]"
  using below
proof (induction n arbitrary: w t)
  case 0
  then show ?case by simp
next
  case (Suc n)
  from Suc.prems have nb: "\<not> (r \<noteq> Network_Error \<and> 5 \<le> attempts t)" by auto
  from failing_pass [OF Suc.prems(1) Suc.prems(2) Suc.prems(3) fail] nb obtain w1 where
    p: "syncPendingTransactions (\<lambda>k. r) w = (Inr \<lparr>synced = 0, failed = 1\<rparr>, w1)"
    and i: "\<not> syncInProgress w1"
    and a: "\<not> storage_full w1"
    and q: "getPendingTransactions w1 = Value [t\<lparr>attempts := attempts t + 1\<rparr>]"
    by auto
  have b': "r = Network_Error \<or> attempts (t\<lparr>attempts := attempts t + 1\<rparr>) + n \<le> 5"
    using Suc.prems(4) by auto
  from Suc.IH [OF i a q b'] obtain w' where
    r: "sync_passes n (\<lambda>k. r) w1 = (replicate n (Inr \<lparr>synced = 0, failed = 1\<rparr>), w')"
    and i': "\<not> syncInProgress w'" and a': "\<not> storage_full w'"
    and q': "getPendingTransactions w' = Value [t\<lparr>attempts := attempts t + 1 + n\<rparr>]"
    by auto
  from p r i' a' q' show ?case by simp
qed

text \<open>
  Claim C1, evaluated on the code. One queued transaction, every commit answered with
  status 500: each of the first five passes reports \<open>{synced: 0, failed: 1}\<close> and
  after the fifth pass the entry is still queued, with \<open>attempts = 5\<close>; it is the
  sixth pass that removes it and reports \<open>{synced: 0, failed: 0}\<close>. With every fetch
  rejected instead, six passes each report \<open>failed = 1\<close> and the entry is still
  queued, with \<open>attempts = 6\<close>.
\<close>

theorem retry_ceiling_observed:
  "(\<exists>w0 w5 w6.
      addPendingTransaction ''sale'' 1700000000000 ''k3j9x2q1z'' 1700000000000 fresh_world
        = Inr (generateTransactionId 1700000000000 ''k3j9x2q1z'', w0)
    \<and> sync_passes 5 (\<lambda>k. Response 500) w0
        = (replicate 5 (Inr \<lparr>synced = 0, failed = 1\<rparr>), w5)
    \<and> (\<exists>t. getPendingTransactions w5 = Value [t] \<and> attempts t = 5)
    \<and> syncPendingTransactions (\<lambda>k. Response 500) w5 = (Inr \<lparr>synced = 0, failed = 0\<rparr>, w6)
    \<and> getPendingTransactions w6 = Value [])
   \<and> (\<exists>w0 w6.
      addPendingTransaction ''sale'' 1700000000000 ''k3j9x2q1z'' 1700000000000 fresh_world
        = Inr (generateTransactionId 1700000000000 ''k3j9x2q1z'', w0)
    \<and> sync_passes 6 (\<lambda>k. Network_Error) w0
        = (replicate 6 (Inr \<lparr>synced = 0, failed = 1\<rparr>), w6)
    \<and> (\<exists>t. getPendingTransactions w6 = Value [t] \<and> attempts t = 6))"
proof -
  let ?t = "\<lparr>payload = ''sale'', txid = generateTransactionId 1700000000000 ''k3j9x2q1z'',
             createdAt = 1700000000000, attempts = 0::nat\<rparr>"
  let ?w = "fresh_world\<lparr>pending_item := Some (Json [?t])\<rparr>"
  have add: "addPendingTransaction ''sale'' 1700000000000 ''k3j9x2q1z'' 1700000000000 fresh_world
               = Inr (generateTransactionId 1700000000000 ''k3j9x2q1z'', ?w)"
    by (simp add: addPendingTransaction_def Let_def fresh_world_def getPendingTransactions_def
          setPending_def)
  have idle: "\<not> syncInProgress ?w" and acc: "\<not> storage_full ?w"
    by (simp_all add: fresh_world_def)
  have single: "getPendingTransactions ?w = Value [?t]"
    by simp
  have f500: "\<not> ok (Response 500)" by simp
  have fnet: "\<not> ok Network_Error" by simp
  from failing_passes [OF f500 _ idle acc single, of 5] obtain w5 where
    p5: "sync_passes 5 (\<lambda>k. Response 500) ?w = (replicate 5 (Inr \<lparr>synced = 0, failed = 1\<rparr>), w5)"
    and i5: "\<not> syncInProgress w5" and a5: "\<not> storage_full w5"
    and q5: "getPendingTransactions w5 = Value [?t\<lparr>attempts := 5\<rparr>]"
    by auto
  from failing_pass [OF i5 a5 q5 f500] obtain w6 where
    p6: "syncPendingTransactions (\<lambda>k. Response 500) w5 = (Inr \<lparr>synced = 0, failed = 0\<rparr>, w6)"
    and q6: "getPendingTransactions w6 = Value []"
    by auto
  from failing_passes [OF fnet _ idle acc single, of 6] obtain v6 where
    n6: "sync_passes 6 (\<lambda>k. Network_Error) ?w = (replicate 6 (Inr \<lparr>synced = 0, failed = 1\<rparr>), v6)"
    and r6: "getPendingTransactions v6 = Value [?t\<lparr>attempts := 6\<rparr>]"
    by auto
  have A: "\<exists>w0 w5 w6.
      addPendingTransaction ''sale'' 1700000000000 ''k3j9x2q1z'' 1700000000000 fresh_world
        = Inr (generateTransactionId 1700000000000 ''k3j9x2q1z'', w0)
    \<and> sync_passes 5 (\<lambda>k. Response 500) w0
        = (replicate 5 (Inr \<lparr>synced = 0, failed = 1\<rparr>), w5)
    \<and> (\<exists>t. getPendingTransactions w5 = Value [t] \<and> attempts t = 5)
    \<and> syncPendingTransactions (\<lambda>k. Response 500) w5 = (Inr \<lparr>synced = 0, failed = 0\<rparr>, w6)
    \<and> getPendingTransactions w6 = Value []"
    using add p5 q5 p6 q6 by (intro exI [of _ ?w] exI [of _ w5] exI [of _ w6]) simp
  have B: "\<exists>w0 w6.
      addPendingTransaction ''sale'' 1700000000000 ''k3j9x2q1z'' 1700000000000 fresh_world
        = Inr (generateTransactionId 1700000000000 ''k3j9x2q1z'', w0)
    \<and> sync_passes 6 (\<lambda>k. Network_Error) w0
        = (replicate 6 (Inr \<lparr>synced = 0, failed = 1\<rparr>), w6)
    \<and> (\<exists>t. getPendingTransactions w6 = Value [t] \<and> attempts t = 6)"
    using add n6 r6 by (intro exI [of _ ?w] exI [of _ v6]) simp
  from A B show ?thesis by (rule conjI)
qed

subsection \<open>Overlapping passes\<close>

lemma remove_flag [simp]:
  "syncInProgress (removePendingTransaction i w) = syncInProgress w"
  by (simp add: removePendingTransaction_def setPending_def split: parsed.splits)

lemma increment_flag [simp]:
  "syncInProgress (incrementTransactionAttempts i w) = syncInProgress w"
  by (simp add: incrementTransactionAttempts_def setPending_def
        split: parsed.splits option.splits)

lemma sync_one_flag:
  "syncInProgress (fst (sync_one remote t (w, s, f))) = syncInProgress w"
  by (cases "remote (length (net_log w))")
     (simp_all add: sync_one_def sync_settle_def send_def Let_def)

lemma sync_loop_flag:
  "syncInProgress (fst (sync_loop remote ts st)) = syncInProgress (fst st)"
proof (induction ts arbitrary: st)
  case Nil
  then show ?case by simp
next
  case (Cons t ts)
  obtain w s f where st: "st = (w, s, f)" by (cases st) auto
  show ?case
    using Cons.IH [of "sync_one remote t (w, s, f)"] sync_one_flag [of remote t w s f]
    by (simp add: st)
qed

lemma sync_loop_append:
  "sync_loop remote (xs @ ys) st = sync_loop remote ys (sync_loop remote xs st)"
  by (induction xs arbitrary: st) simp_all

text \<open>What one iteration does to the two logs, on a storage that accepts writes.\<close>

lemma sync_one_cases:
  "sync_one remote t (w, s, f) =
     (if ok (remote (length (net_log w)))
      then (removePendingTransaction (txid t) (send (Post_Pending t) w), s + 1, f)
      else if remote (length (net_log w)) \<noteq> Network_Error \<and> 5 \<le> attempts t
      then (removePendingTransaction (txid t)
              (incrementTransactionAttempts (txid t) (send (Post_Pending t) w)), s, f)
      else (incrementTransactionAttempts (txid t) (send (Post_Pending t) w), s, f + 1))"
  by (cases "remote (length (net_log w))") (simp_all add: sync_one_def sync_settle_def Let_def)

lemma remove_props:
  assumes "\<not> storage_full w" and "getPendingTransactions w = Value q"
  shows "net_log (removePendingTransaction i w) = net_log w"
    and "dequeued (removePendingTransaction i w) = dequeued w @ [i]"
    and "\<not> storage_full (removePendingTransaction i w)"
    and "getPendingTransactions (removePendingTransaction i w)
           = Value (filter (\<lambda>t. txid t \<noteq> i) q)"
  unfolding removePending_accepts [OF assms] using assms(1) by simp_all

lemma increment_props:
  assumes "\<not> storage_full w" and "getPendingTransactions w = Value q"
  shows "net_log (incrementTransactionAttempts i w) = net_log w"
    and "dequeued (incrementTransactionAttempts i w) = dequeued w"
    and "\<not> storage_full (incrementTransactionAttempts i w)"
    and "\<exists>q'. getPendingTransactions (incrementTransactionAttempts i w) = Value q'"
  unfolding incrementAttempts_accepts [OF assms] using assms
  by (cases "bump_first i q"; simp)+

lemma sync_one_logs:
  assumes "\<not> storage_full w" and "getPendingTransactions w = Value q"
  shows "\<exists>w' s' f' q'. sync_one remote t (w, s, f) = (w', s', f')
           \<and> net_log w' = net_log w @ [Post_Pending t]
           \<and> dequeued w' = dequeued w @ removals remote (length (net_log w)) [t]
           \<and> \<not> storage_full w' \<and> getPendingTransactions w' = Value q'"
proof -
  let ?ws = "send (Post_Pending t) w"
  let ?wi = "incrementTransactionAttempts (txid t) ?ws"
  have nfs: "\<not> storage_full ?ws" and gs: "getPendingTransactions ?ws = Value q"
    using assms by simp_all
  have ls: "net_log ?ws = net_log w @ [Post_Pending t]" "dequeued ?ws = dequeued w"
    by (simp_all add: send_def)
  note rs = remove_props [OF nfs gs, of "txid t"]
  note ips = increment_props [OF nfs gs, of "txid t"]
  from ips(4) obtain qi where gi: "getPendingTransactions ?wi = Value qi" by blast
  note ri = remove_props [OF ips(3) gi, of "txid t"]
  consider (commit) "ok (remote (length (net_log w)))"
    | (give_up) "\<not> ok (remote (length (net_log w)))"
        "remote (length (net_log w)) \<noteq> Network_Error \<and> 5 \<le> attempts t"
    | (retry) "\<not> ok (remote (length (net_log w)))"
        "\<not> (remote (length (net_log w)) \<noteq> Network_Error \<and> 5 \<le> attempts t)"
    by blast
  then show ?thesis
  proof cases
    case commit
    then have "sync_one remote t (w, s, f)
                 = (removePendingTransaction (txid t) ?ws, s + 1, f)"
      by (simp add: sync_one_cases)
    moreover have "removals remote (length (net_log w)) [t] = [txid t]"
      using commit by simp
    ultimately show ?thesis using rs ls by simp
  next
    case give_up
    then have "sync_one remote t (w, s, f) = (removePendingTransaction (txid t) ?wi, s, f)"
      by (simp add: sync_one_cases)
    moreover have "removals remote (length (net_log w)) [t] = [txid t]"
      using give_up by simp
    ultimately show ?thesis using ri ips ls by simp
  next
    case retry
    then have "sync_one remote t (w, s, f) = (?wi, s, f + 1)"
      by (simp only: sync_one_cases if_False)
    moreover have "removals remote (length (net_log w)) [t] = []"
      using retry by simp
    ultimately show ?thesis using ips gi ls by simp
  qed
qed

lemma removals_append:
  "removals remote n (xs @ ys) = removals remote n xs @ removals remote (n + length xs) ys"
  by (induction xs arbitrary: n) simp_all

lemma sync_loop_logs:
  "\<not> storage_full w \<Longrightarrow> getPendingTransactions w = Value q \<Longrightarrow>
   \<exists>w' s' f' q'. sync_loop remote ts (w, s, f) = (w', s', f')
      \<and> net_log w' = net_log w @ map Post_Pending ts
      \<and> dequeued w' = dequeued w @ removals remote (length (net_log w)) ts
      \<and> \<not> storage_full w' \<and> getPendingTransactions w' = Value q'"
proof (induction ts arbitrary: w s f q)
  case Nil
  then show ?case by simp
next
  case (Cons t ts)
  from sync_one_logs [OF Cons.prems, of remote t s f] obtain w1 s1 f1 q1 where
    o: "sync_one remote t (w, s, f) = (w1, s1, f1)"
    and n1: "net_log w1 = net_log w @ [Post_Pending t]"
    and d1: "dequeued w1 = dequeued w @ removals remote (length (net_log w)) [t]"
    and a1: "\<not> storage_full w1" and g1: "getPendingTransactions w1 = Value q1"
    by blast
  from Cons.IH [OF a1 g1, of s1 f1] obtain w' s' f' q' where
    l: "sync_loop remote ts (w1, s1, f1) = (w', s', f')"
    and n': "net_log w' = net_log w1 @ map Post_Pending ts"
    and d': "dequeued w' = dequeued w1 @ removals remote (length (net_log w1)) ts"
    and a': "\<not> storage_full w'" and g': "getPendingTransactions w' = Value q'"
    by blast
  have "removals remote (length (net_log w)) (t # ts)
          = removals remote (length (net_log w)) [t]
              @ removals remote (Suc (length (net_log w))) ts"
    by simp
  with o l n1 d1 n' d' a' g' show ?case by simp
qed

text \<open>On a storage that refuses writes no removal is ever recorded.\<close>

lemma sync_loop_logs_full:
  "storage_full w \<Longrightarrow>
   \<exists>w' s' f'. sync_loop remote ts (w, s, f) = (w', s', f')
      \<and> net_log w' = net_log w @ map Post_Pending ts
      \<and> dequeued w' = dequeued w \<and> storage_full w'"
proof (induction ts arbitrary: w s f)
  case Nil
  then show ?case by simp
next
  case (Cons t ts)
  let ?ws = "send (Post_Pending t) w"
  have full: "storage_full ?ws" using Cons.prems by simp
  have r: "removePendingTransaction (txid t) ?ws = ?ws"
    "incrementTransactionAttempts (txid t) ?ws = ?ws"
    using full
    by (simp_all add: removePendingTransaction_def incrementTransactionAttempts_def
          setPending_def split: parsed.splits option.splits)
  have "\<exists>s1 f1. sync_one remote t (w, s, f) = (?ws, s1, f1)"
    by (simp add: sync_one_cases r)
  then obtain s1 f1 where o: "sync_one remote t (w, s, f) = (?ws, s1, f1)"
    by blast
  from Cons.IH [OF full, of s1 f1] obtain w' s' f' where
    l: "sync_loop remote ts (?ws, s1, f1) = (w', s', f')"
    and n': "net_log w' = net_log ?ws @ map Post_Pending ts"
    and d': "dequeued w' = dequeued ?ws" and a': "storage_full w'"
    by blast
  from o l n' d' a' show ?case by (simp add: send_def)
qed

text \<open>
  Claim C5. A call made while the in-flight flag is set returns
  \<open>{synced: 0, failed: 0}\<close> and leaves the whole state as it was: queue text, request
  log and removal log. When a first call is started with the flag clear on a non-empty
  queue \<open>p\<close> and a second call arrives while the first is suspended at any of its
  fetches, the second returns \<open>{0, 0}\<close>, and the first ends with the result and the
  state it has when it runs alone; over both calls each snapshot entry is posted exactly
  once and the removals are those of one pass.
\<close>

theorem single_in_flight_sync:
  "(syncInProgress v \<longrightarrow>
      syncPendingTransactions remote v = (Inr \<lparr>synced = 0, failed = 0\<rparr>, v))
   \<and> (\<not> syncInProgress w \<and> getPendingTransactions w = Value p \<and> k < length p \<longrightarrow>
        (\<exists>first w'.
            overlapped_sync remote k w = (first, Inr \<lparr>synced = 0, failed = 0\<rparr>, w')
          \<and> syncPendingTransactions remote w = (first, w')
          \<and> net_log w' = net_log w @ map Post_Pending p
          \<and> dequeued w' =
              dequeued w
                @ (if storage_full w then [] else removals remote (length (net_log w)) p)))"
proof (intro conjI impI)
  assume "syncInProgress v"
  then show "syncPendingTransactions remote v = (Inr \<lparr>synced = 0, failed = 0\<rparr>, v)"
    by (simp add: syncPendingTransactions_def sync_begin_def)
next
  assume a: "\<not> syncInProgress w \<and> getPendingTransactions w = Value p \<and> k < length p"
  let ?w1 = "w\<lparr>syncInProgress := True\<rparr>"
  have b: "sync_begin w = Running ?w1 p"
    using a by (auto simp: sync_begin_def Let_def)
  obtain wk s f where pre: "sync_loop remote (take k p) (?w1, 0, 0) = (wk, s, f)"
    by (cases "sync_loop remote (take k p) (?w1, 0, 0)") auto
  have flag: "syncInProgress wk"
    using sync_loop_flag [of remote "take k p" "(?w1, 0, 0)"] pre by simp
  let ?t = "p ! k"
  let ?wa = "send (Post_Pending ?t) wk"
  have second: "syncPendingTransactions remote ?wa = (Inr \<lparr>synced = 0, failed = 0\<rparr>, ?wa)"
    using flag by (simp add: syncPendingTransactions_def sync_begin_def send_def)
  have split: "p = take k p @ ?t # drop (Suc k) p"
    using a by (simp add: id_take_nth_drop)
  have "sync_loop remote p (?w1, 0, 0) =
          sync_loop remote (drop (Suc k) p) (sync_one remote ?t (wk, s, f))"
    by (subst split) (simp add: sync_loop_append pre)
  then have whole: "sync_loop remote p (?w1, 0, 0) =
          sync_loop remote (drop (Suc k) p)
            (sync_settle (remote (length (net_log wk))) ?t (?wa, s, f))"
    by (simp add: sync_one_def)
  obtain we se fe where fin: "sync_loop remote p (?w1, 0, 0) = (we, se, fe)"
    by (cases "sync_loop remote p (?w1, 0, 0)") auto
  have solo: "syncPendingTransactions remote w
                = (Inr \<lparr>synced = se, failed = fe\<rparr>, we\<lparr>syncInProgress := False\<rparr>)"
    unfolding syncPendingTransactions_def b by (simp add: fin sync_finish_def)
  have over: "overlapped_sync remote k w
                = (Inr \<lparr>synced = se, failed = fe\<rparr>, Inr \<lparr>synced = 0, failed = 0\<rparr>,
                   we\<lparr>syncInProgress := False\<rparr>)"
  proof -
    have fin': "sync_loop remote (drop (Suc k) p)
                  (sync_settle (remote (length (net_log wk))) ?t (?wa, s, f)) = (we, se, fe)"
      using whole fin by simp
    show ?thesis
      unfolding overlapped_sync_def b
      by (simp add: pre Let_def second fin' sync_finish_def)
  qed
  have logs: "net_log we = net_log w @ map Post_Pending p
            \<and> dequeued we =
                dequeued w
                  @ (if storage_full w then [] else removals remote (length (net_log w)) p)"
  proof (cases "storage_full w")
    case True
    then have "storage_full ?w1" by simp
    from sync_loop_logs_full [OF this, of remote p 0 0] fin True show ?thesis by auto
  next
    case False
    then have nf: "\<not> storage_full ?w1" by simp
    have g: "getPendingTransactions ?w1 = Value p" using a by simp
    from sync_loop_logs [OF nf g, of remote p 0 0] fin False show ?thesis by auto
  qed
  show "\<exists>first w'.
            overlapped_sync remote k w = (first, Inr \<lparr>synced = 0, failed = 0\<rparr>, w')
          \<and> syncPendingTransactions remote w = (first, w')
          \<and> net_log w' = net_log w @ map Post_Pending p
          \<and> dequeued w' =
              dequeued w
                @ (if storage_full w then [] else removals remote (length (net_log w)) p)"
    using solo over logs
    by (intro exI [of _ "Inr \<lparr>synced = se, failed = fe\<rparr>"]
              exI [of _ "we\<lparr>syncInProgress := False\<rparr>"]) simp
qed

theorem single_in_flight_sync_witness:
  "syncInProgress (fresh_world\<lparr>syncInProgress := True\<rparr>)
   \<and> syncPendingTransactions (\<lambda>k. Response 200) (fresh_world\<lparr>syncInProgress := True\<rparr>)
       = (Inr \<lparr>synced = 0, failed = 0\<rparr>, fresh_world\<lparr>syncInProgress := True\<rparr>)
   \<and> \<not> syncInProgress
         (fresh_world\<lparr>pending_item :=
            Some (Json [\<lparr>payload = ''sale'', txid = ''a'', createdAt = 1, attempts = 0\<rparr>,
                        \<lparr>payload = ''entry'', txid = ''b'', createdAt = 2, attempts = 0\<rparr>])\<rparr>)
   \<and> getPendingTransactions
         (fresh_world\<lparr>pending_item :=
            Some (Json [\<lparr>payload = ''sale'', txid = ''a'', createdAt = 1, attempts = 0\<rparr>,
                        \<lparr>payload = ''entry'', txid = ''b'', createdAt = 2, attempts = 0\<rparr>])\<rparr>)
       = Value [\<lparr>payload = ''sale'', txid = ''a'', createdAt = 1, attempts = 0\<rparr>,
                \<lparr>payload = ''entry'', txid = ''b'', createdAt = 2, attempts = 0\<rparr>]
   \<and> (1::nat) < length [\<lparr>payload = ''sale'', txid = ''a'', createdAt = 1, attempts = 0::nat\<rparr>,
                         \<lparr>payload = ''entry'', txid = ''b'', createdAt = 2, attempts = 0\<rparr>]
   \<and> (\<exists>first w'.
         overlapped_sync (\<lambda>k. Response 200) 1
           (fresh_world\<lparr>pending_item :=
              Some (Json [\<lparr>payload = ''sale'', txid = ''a'', createdAt = 1, attempts = 0\<rparr>,
                          \<lparr>payload = ''entry'', txid = ''b'', createdAt = 2, attempts = 0\<rparr>])\<rparr>)
           = (first, Inr \<lparr>synced = 0, failed = 0\<rparr>, w')
       \<and> net_log w'
           = [Post_Pending \<lparr>payload = ''sale'', txid = ''a'', createdAt = 1, attempts = 0\<rparr>,
              Post_Pending \<lparr>payload = ''entry'', txid = ''b'', createdAt = 2, attempts = 0\<rparr>]
       \<and> dequeued w' = [''a'', ''b''])"
proof -
  let ?p = "[\<lparr>payload = ''sale'', txid = ''a'', createdAt = 1, attempts = 0::nat\<rparr>,
             \<lparr>payload = ''entry'', txid = ''b'', createdAt = 2, attempts = 0\<rparr>]"
  let ?w = "fresh_world\<lparr>pending_item := Some (Json ?p)\<rparr>"
  have h0: "syncInProgress (fresh_world\<lparr>syncInProgress := True\<rparr>)"
    by simp
  have h1: "\<not> syncInProgress ?w" and nf: "\<not> storage_full ?w"
    and nl: "net_log ?w = []" and dq: "dequeued ?w = []"
    by (simp_all add: fresh_world_def)
  have h2: "getPendingTransactions ?w = Value ?p"
    by simp
  have h3: "(1::nat) < length ?p"
    by simp
  have r: "removals (\<lambda>k. Response 200) 0 ?p = [''a'', ''b'']"
    by simp
  from single_in_flight_sync
         [where v = "fresh_world\<lparr>syncInProgress := True\<rparr>" and w = ?w and k = 1
            and remote = "\<lambda>k. Response 200" and p = ?p]
       h0 h1 h2 h3 nf nl dq r
  show ?thesis
    by auto
qed

subsection \<open>The cache freshness window and the offline read path\<close>

lemma getData_no_cache_not_fromCache:
  assumes "cache_item w = None"
  shows "\<not> (\<exists>r. fst (getData False load now later w) = Inr r \<and> fromCache r)"
  using assms
  by (auto simp: getData_def getCachedData_def hasCachedData_def loadAndCacheData_def
        send_def setCachedData_def clearCache_def Let_def split: sum.splits prod.splits)

text \<open>
  Claim C2, as amended. For a stored entry of age \<open>now - lastUpdated\<close>,
  \<^verbatim>\<open>getData(false)\<close> returns that entry with \<open>fromCache = true\<close> (touching nothing)
  when the age is at most 30 minutes, and only then does it return anything from the
  cache; when the age is more than 30 minutes it gives exactly the result and the state
  that it gives with the cache key missing.
\<close>

theorem cache_freshness_window:
  assumes "cache_item w = Some (Json d)"
  shows "(now - lastUpdated d \<le> CACHE_EXPIRY \<longrightarrow>
            getData False load now later w = (Inr (from_cache d), w))
       \<and> (now - lastUpdated d > CACHE_EXPIRY \<longrightarrow>
            getData False load now later w
              = getData False load now later (w\<lparr>cache_item := None\<rparr>))
       \<and> ((\<exists>r. fst (getData False load now later w) = Inr r \<and> fromCache r)
            \<longleftrightarrow> now - lastUpdated d \<le> CACHE_EXPIRY)"
proof -
  have fresh: "getData False load now later w = (Inr (from_cache d), w)"
    if "now - lastUpdated d \<le> CACHE_EXPIRY"
    using that assms
    by (simp add: getData_def getCachedData_def hasCachedData_def)
  have stale: "getData False load now later w
                 = getData False load now later (w\<lparr>cache_item := None\<rparr>)"
    if "now - lastUpdated d > CACHE_EXPIRY"
    using that assms
    by (simp add: getData_def getCachedData_def hasCachedData_def clearCache_def)
  have none: "\<not> (\<exists>r. fst (getData False load now later (w\<lparr>cache_item := None\<rparr>)) = Inr r
                      \<and> fromCache r)"
    by (rule getData_no_cache_not_fromCache) simp
  have iff: "(\<exists>r. fst (getData False load now later w) = Inr r \<and> fromCache r)
               \<longleftrightarrow> now - lastUpdated d \<le> CACHE_EXPIRY"
  proof (cases "now - lastUpdated d \<le> CACHE_EXPIRY")
    case True
    then show ?thesis by (simp add: fresh from_cache_def)
  next
    case False
    then have "now - lastUpdated d > CACHE_EXPIRY" by simp
    with stale none False show ?thesis by simp
  qed
  from fresh stale iff show ?thesis by blast
qed

theorem cache_freshness_window_witness:
  "cache_item cached_world
     = Some (Json \<lparr>productos = [''gin''], inventario = [''gin@bar''], lastUpdated = 0,
                   version = 1\<rparr>)
   \<and> (1799999::int) - 0 \<le> CACHE_EXPIRY
   \<and> getData False (Inl ''down'') 1799999 1800500 cached_world
       = (Inr \<lparr>r_productos = [''gin''], r_inventario = [''gin@bar''], fromCache = True\<rparr>,
          cached_world)
   \<and> (1800001::int) - 0 > CACHE_EXPIRY
   \<and> getData False (Inl ''down'') 1800001 1800500 cached_world
       = getData False (Inl ''down'') 1800001 1800500 (cached_world\<lparr>cache_item := None\<rparr>)"
  using cache_freshness_window
          [where w = cached_world and now = 1799999 and later = 1800500
             and load = "Inl ''down''"
             and d = "\<lparr>productos = [''gin''], inventario = [''gin@bar''], lastUpdated = 0,
                        version = 1\<rparr>"]
        cache_freshness_window
          [where w = cached_world and now = 1800001 and later = 1800500
             and load = "Inl ''down''"
             and d = "\<lparr>productos = [''gin''], inventario = [''gin@bar''], lastUpdated = 0,
                        version = 1\<rparr>"]
  by (simp add: cached_world_def CACHE_EXPIRY_def from_cache_def)

text \<open>
  Claim C2 as stated fails at the boundary: an entry exactly 30 minutes old is returned
  from the cache, although its age is not below 30 minutes.
\<close>

theorem cache_boundary_counterexample:
  "fst (getData False (Inl ''down'') (30 * 60 * 1000) (30 * 60 * 1000) cached_world)
     = Inr \<lparr>r_productos = [''gin''], r_inventario = [''gin@bar''], fromCache = True\<rparr>
   \<and> \<not> ((30 * 60 * 1000 :: int) - 0 < 30 * 60 * 1000)"
  by (simp add: getData_def getCachedData_def hasCachedData_def cached_world_def
        CACHE_EXPIRY_def from_cache_def)

text \<open>
  Claim C6. Offline, \<^verbatim>\<open>getData\<close> makes no network call, whatever \<^verbatim>\<open>forceRefresh\<close>
  is, and has exactly two outcomes. A cached entry that is present (stored, and within
  the freshness window: an expired entry counts as no cache) is returned with
  \<open>fromCache = true\<close>, the state untouched. With no cache the call fails with the
  offline error: the state is untouched when the key is missing or empty, and the key
  is removed when its text is unreadable or its entry has expired.
\<close>

theorem offline_read_path:
  assumes "\<not> onLine w"
  shows "net_log (snd (getData forceRefresh load now later w)) = net_log w
       \<and> (\<forall>d. cache_item w = Some (Json d) \<and> now - lastUpdated d \<le> CACHE_EXPIRY \<longrightarrow>
                getData forceRefresh load now later w = (Inr (from_cache d), w))
       \<and> (cache_item w = None \<or> cache_item w = Some Empty_Text \<longrightarrow>
                getData forceRefresh load now later w = (Inl NoCachedDataOffline, w))
       \<and> (cache_item w = Some Unparsable \<or> cache_item w = Some Json_Null
            \<or> cache_item w = Some Json_Other
            \<or> (\<exists>d. cache_item w = Some (Json d) \<and> now - lastUpdated d > CACHE_EXPIRY) \<longrightarrow>
                getData forceRefresh load now later w
                  = (Inl NoCachedDataOffline, w\<lparr>cache_item := None\<rparr>))"
  using assms
  by (auto simp: getData_def getCachedData_def clearCache_def
        split: option.splits item.splits)

theorem offline_read_path_witness:
  "\<not> onLine (cached_world\<lparr>onLine := False\<rparr>)
   \<and> getData True (Inl ''down'') 1000 2000 (cached_world\<lparr>onLine := False\<rparr>)
       = (Inr \<lparr>r_productos = [''gin''], r_inventario = [''gin@bar''], fromCache = True\<rparr>,
          cached_world\<lparr>onLine := False\<rparr>)
   \<and> getData True (Inl ''down'') 1000 2000 (fresh_world\<lparr>onLine := False\<rparr>)
       = (Inl NoCachedDataOffline, fresh_world\<lparr>onLine := False\<rparr>)
   \<and> getData True (Inl ''down'') 7200000 7200000 (cached_world\<lparr>onLine := False\<rparr>)
       = (Inl NoCachedDataOffline, cached_world\<lparr>onLine := False, cache_item := None\<rparr>)
   \<and> net_log (snd (getData True (Inl ''down'') 1000 2000 (fresh_world\<lparr>onLine := False\<rparr>))) = []"
  using offline_read_path
          [where w = "cached_world\<lparr>onLine := False\<rparr>" and now = 1000 and later = 2000
             and load = "Inl ''down''" and forceRefresh = True]
        offline_read_path
          [where w = "fresh_world\<lparr>onLine := False\<rparr>" and now = 1000 and later = 2000
             and load = "Inl ''down''" and forceRefresh = True]
        offline_read_path
          [where w = "cached_world\<lparr>onLine := False\<rparr>" and now = 7200000 and later = 7200000
             and load = "Inl ''down''" and forceRefresh = True]
  by (simp add: cached_world_def fresh_world_def CACHE_EXPIRY_def from_cache_def)

section \<open>Properties of the report scheduler\<close>

subsection \<open>The single timer\<close>

lemma clear_current_clears:
  "one_timer s \<Longrightarrow> timers (clear_current s) = [] \<and> timeoutId (clear_current s) = None
     \<and> next_handle (clear_current s) = next_handle s
     \<and> currentConfig (clear_current s) = currentConfig s"
  by (auto simp: one_timer_def clear_current_def clearTimeout_def split: option.splits)

lemma scheduleTimeout_arms:
  "timers s = [] \<Longrightarrow>
     \<exists>cb dl. timers (scheduleTimeout t s) = [(next_handle s, cb, dl)]
            \<and> timeoutId (scheduleTimeout t s) = Some (next_handle s)
            \<and> next_handle (scheduleTimeout t s) = Suc (next_handle s)"
  by (simp add: scheduleTimeout_def setTimeout_def)

lemma scheduleNextReport_timer:
  assumes "one_timer s"
  shows "(timers (scheduleNextReport now s) = []
            \<and> timeoutId (scheduleNextReport now s) = None
            \<and> next_handle (scheduleNextReport now s) = next_handle s)
       \<or> (\<exists>cb dl. timers (scheduleNextReport now s) = [(next_handle s, cb, dl)]
            \<and> timeoutId (scheduleNextReport now s) = Some (next_handle s)
            \<and> next_handle (scheduleNextReport now s) = Suc (next_handle s))"
proof -
  let ?s1 = "clear_current s"
  note c = clear_current_clears [OF assms]
  from c have e: "timers ?s1 = []" by simp
  note arm = scheduleTimeout_arms [OF e]
  show ?thesis
  proof (cases "calculateNextReportTime (currentConfig ?s1) now")
    case None
    then show ?thesis using c by (simp add: scheduleNextReport_def Let_def)
  next
    case (Some d)
    show ?thesis
    proof (cases d)
      case Invalid_Date
      with Some arm [of None] c show ?thesis
        by (simp add: scheduleNextReport_def Let_def)
    next
      case (Time t)
      show ?thesis
      proof (cases "t - now \<le> 0")
        case False
        with Some Time arm [of "Some (t - now)"] c show ?thesis
          by (simp add: scheduleNextReport_def Let_def)
      next
        case True
        show ?thesis
        proof (cases "t + 24 * 60 * 60 * 1000 - now > 0")
          case True
          with \<open>t - now \<le> 0\<close> Some Time arm [of "Some (t + 24 * 60 * 60 * 1000 - now)"] c
          show ?thesis
            by (simp add: scheduleNextReport_def Let_def)
        next
          case False
          with \<open>t - now \<le> 0\<close> Some Time c show ?thesis
            by (simp add: scheduleNextReport_def Let_def)
        qed
      qed
    qed
  qed
qed

lemma scheduleNextReport_one_timer:
  "one_timer s \<Longrightarrow> one_timer (scheduleNextReport now s)"
  using scheduleNextReport_timer [of s now] by (auto simp: one_timer_def)

lemma one_timer_fields [simp]:
  "one_timer (s\<lparr>currentConfig := c\<rparr>) = one_timer s"
  "one_timer (s\<lparr>isActive := b\<rparr>) = one_timer s"
  by (simp_all add: one_timer_def)

lemma fired_one_timer:
  assumes "one_timer s"
  shows "one_timer (s\<lparr>timers := filter (\<lambda>e. fst e \<noteq> h) (timers s)\<rparr>)"
proof (cases "timers s")
  case Nil
  then show ?thesis by (simp add: one_timer_def)
next
  case (Cons e es)
  with assms obtain h' cb dl where t: "timers s = [(h', cb, dl)]" "timeoutId s = Some h'"
    by (auto simp: one_timer_def)
  show ?thesis
    by (cases "h' = h") (simp_all add: one_timer_def t)
qed

lemma step_one_timer: "one_timer s \<Longrightarrow> one_timer (step e s)"
proof (cases e)
  case (Load_Done c)
  assume "one_timer s"
  then show ?thesis using Load_Done by simp
next
  case (Initialize_Rest now)
  assume "one_timer s"
  then show ?thesis using Initialize_Rest
    by (auto simp: Let_def scheduleNextReport_one_timer split: option.splits)
next
  case (Timer_Fires h now)
  assume a: "one_timer s"
  show ?thesis
  proof (cases "find (\<lambda>e. fst e = h) (timers s)")
    case None
    then show ?thesis using a Timer_Fires by (simp add: fire_def)
  next
    case (Some e')
    obtain h' cb dl where e': "e' = (h', cb, dl)" by (cases e') auto
    show ?thesis
      using a Timer_Fires Some e' fired_one_timer [OF a, of h]
      by (cases cb) (simp_all add: fire_def Let_def scheduleNextReport_one_timer)
  qed
next
  case (Report_Done now)
  assume "one_timer s"
  then show ?thesis using Report_Done by (simp add: scheduleNextReport_one_timer)
next
  case (Update_Configuration c now)
  assume a: "one_timer s"
  have b: "one_timer (s\<lparr>currentConfig := Some c\<rparr>)" using a by simp
  have "one_timer (clear_current (s\<lparr>currentConfig := Some c\<rparr>))"
    using clear_current_clears [OF b] by (simp add: one_timer_def)
  then show ?thesis using Update_Configuration
    by (simp add: updateConfiguration_def Let_def scheduleNextReport_one_timer)
next
  case Stop
  assume a: "one_timer s"
  show ?thesis using Stop clear_current_clears [OF a]
    by (simp add: stop_def one_timer_def)
qed

lemma run_one_timer: "one_timer s \<Longrightarrow> one_timer (run es s)"
  by (induction es arbitrary: s) (simp_all add: step_one_timer)

lemma run_append: "run (es @ fs) s = run fs (run es s)"
  by (induction es arbitrary: s) simp_all

lemma step_arms_after_clearing:
  assumes "one_timer s" and "next_handle (step e s) \<noteq> next_handle s"
  shows "\<exists>cb dl. timers (step e s) = [(next_handle s, cb, dl)]
           \<and> timeoutId (step e s) = Some (next_handle s)"
proof (cases e)
  case (Load_Done c)
  then show ?thesis using assms by simp
next
  case (Initialize_Rest now)
  then show ?thesis
    using assms scheduleNextReport_timer [OF assms(1), of now]
    by (auto simp: Let_def split: option.splits if_splits)
next
  case (Timer_Fires h now)
  show ?thesis
  proof (cases "find (\<lambda>e. fst e = h) (timers s)")
    case None
    then show ?thesis using assms Timer_Fires by (simp add: fire_def)
  next
    case (Some e')
    obtain h' cb dl where e': "e' = (h', cb, dl)" by (cases e') auto
    let ?s1 = "s\<lparr>timers := filter (\<lambda>e. fst e \<noteq> h) (timers s)\<rparr>"
    have o: "one_timer ?s1" by (rule fired_one_timer [OF assms(1)])
    show ?thesis
    proof (cases cb)
      case Bridge
      then show ?thesis
        using assms Timer_Fires Some e' scheduleNextReport_timer [OF o, of now]
        by (auto simp: fire_def Let_def)
    next
      case Report
      then show ?thesis
        using assms Timer_Fires Some e' by (simp add: fire_def Let_def)
    qed
  qed
next
  case (Report_Done now)
  then show ?thesis
    using assms scheduleNextReport_timer [OF assms(1), of now] by auto
next
  case (Update_Configuration c now)
  let ?s1 = "clear_current (s\<lparr>currentConfig := Some c\<rparr>)"
  have b: "one_timer (s\<lparr>currentConfig := Some c\<rparr>)" using assms(1) by simp
  note cl = clear_current_clears [OF b]
  have o: "one_timer ?s1" using cl by (simp add: one_timer_def)
  show ?thesis
    using assms Update_Configuration cl scheduleNextReport_timer [OF o, of now]
    by (auto simp: updateConfiguration_def Let_def split: if_splits)
next
  case Stop
  then show ?thesis
    using assms clear_current_clears [OF assms(1)] by (simp add: stop_def)
qed

text \<open>
  Claim C9. After any sequence of scheduler operations, started from the service as
  constructed, at most one timer is armed, and it is the one whose handle the service
  holds. Whenever an operation arms a timer, that timer is then the only armed one: what
  was armed before has been cleared. After \<^verbatim>\<open>stop\<close>, and after
  \<^verbatim>\<open>updateConfiguration\<close> with a disabled configuration, no timer is armed.
\<close>

theorem single_outstanding_timer:
  "length (timers (run es new_scheduler)) \<le> 1
   \<and> (\<forall>e \<in> set (timers (run es new_scheduler)).
         timeoutId (run es new_scheduler) = Some (fst e))
   \<and> (next_handle (step e (run es new_scheduler)) \<noteq> next_handle (run es new_scheduler) \<longrightarrow>
        (\<exists>cb dl. timers (step e (run es new_scheduler))
                    = [(next_handle (run es new_scheduler), cb, dl)]))
   \<and> timers (run (es @ [Stop]) new_scheduler) = []
   \<and> (\<not> reporte_reposicion_activado c \<longrightarrow>
        timers (run (es @ [Update_Configuration c now]) new_scheduler) = [])"
proof -
  have init: "one_timer new_scheduler"
    by (simp add: one_timer_def new_scheduler_def)
  let ?s = "run es new_scheduler"
  have o: "one_timer ?s" by (rule run_one_timer [OF init])
  have a: "length (timers ?s) \<le> 1" "\<forall>e \<in> set (timers ?s). timeoutId ?s = Some (fst e)"
    using o by (auto simp: one_timer_def)
  have b: "next_handle (step e ?s) \<noteq> next_handle ?s \<longrightarrow>
             (\<exists>cb dl. timers (step e ?s) = [(next_handle ?s, cb, dl)])"
    using step_arms_after_clearing [OF o, of e] by blast
  have s: "timers (run (es @ [Stop]) new_scheduler) = []"
    using clear_current_clears [OF o] by (simp add: run_append stop_def)
  have u: "\<not> reporte_reposicion_activado c \<longrightarrow>
             timers (run (es @ [Update_Configuration c now]) new_scheduler) = []"
  proof
    assume d: "\<not> reporte_reposicion_activado c"
    have "one_timer (?s\<lparr>currentConfig := Some c\<rparr>)" using o by simp
    from clear_current_clears [OF this] d
    show "timers (run (es @ [Update_Configuration c now]) new_scheduler) = []"
      by (simp add: run_append updateConfiguration_def Let_def)
  qed
  from a b s u show ?thesis by blast
qed


lemma ev_run1:
  "run [Load_Done (Some weekly_monday_nine), Initialize_Rest 522000000] new_scheduler
     = \<lparr>timeoutId = Some 1, isActive = True, currentConfig = Some weekly_monday_nine,
        timers = [(1, Report, Some 460800000)], next_handle = 2\<rparr>"
  by code_simp

theorem single_outstanding_timer_witness:
  "timers (run [Load_Done (Some weekly_monday_nine), Initialize_Rest 522000000] new_scheduler)
     = [(1, Report, Some 460800000)]
   \<and> timeoutId (run [Load_Done (Some weekly_monday_nine), Initialize_Rest 522000000]
                  new_scheduler) = Some 1
   \<and> next_handle (step (Report_Done 522000000)
        (run [Load_Done (Some weekly_monday_nine), Initialize_Rest 522000000] new_scheduler))
       \<noteq> next_handle
            (run [Load_Done (Some weekly_monday_nine), Initialize_Rest 522000000] new_scheduler)
   \<and> timers (step (Report_Done 522000000)
        (run [Load_Done (Some weekly_monday_nine), Initialize_Rest 522000000] new_scheduler))
       = [(2, Report, Some 460800000)]
   \<and> timers (run ([Load_Done (Some weekly_monday_nine), Initialize_Rest 522000000] @ [Stop])
               new_scheduler) = []
   \<and> \<not> reporte_reposicion_activado reports_off
   \<and> timers (run ([Load_Done (Some weekly_monday_nine), Initialize_Rest 522000000]
                   @ [Update_Configuration reports_off 522000000]) new_scheduler) = []"
proof -
  let ?es = "[Load_Done (Some weekly_monday_nine), Initialize_Rest 522000000]"
  note t = single_outstanding_timer
             [where es = ?es and e = "Report_Done 522000000" and c = reports_off
                and now = 522000000]
  have off: "\<not> reporte_reposicion_activado reports_off"
    by (simp add: reports_off_def)
  have c1: "timers (run ?es new_scheduler) = [(1, Report, Some 460800000)]"
    by code_simp
  have c2: "timeoutId (run ?es new_scheduler) = Some 1"
    by code_simp
  have c3: "next_handle (step (Report_Done 522000000) (run ?es new_scheduler))
              \<noteq> next_handle (run ?es new_scheduler)"
    by code_simp
  have c4: "timers (step (Report_Done 522000000) (run ?es new_scheduler))
              = [(2, Report, Some 460800000)]"
    by code_simp
  have c5: "timers (run (?es @ [Stop]) new_scheduler) = []"
    using t by blast
  have c7: "timers (run (?es @ [Update_Configuration reports_off 522000000]) new_scheduler) = []"
    using t off by blast
  show ?thesis
    using c1 c2 c3 c4 c5 off c7 by (intro conjI) assumption+
qed

subsection \<open>The weekly rule\<close>







lemma div_day: "(r + q * msPerDay) div msPerDay = q + r div msPerDay"
  by (simp add: msPerDay_def)




subsection \<open>The calendar\<close>

lemma div_succ:
  fixes a c :: int
  assumes "1 < c"
  shows "(a + 1) div c = a div c + (if (a + 1) mod c = 0 then 1 else 0)"
proof -
  have c0: "c \<noteq> 0" using assms by simp
  have r: "0 \<le> a mod c" "a mod c < c" using assms by simp_all
  have e: "a + 1 = (a div c) * c + (a mod c + 1)"
    by (simp only: add.assoc [symmetric] div_mult_mod_eq)
  have d: "(a + 1) div c = a div c + (a mod c + 1) div c"
    by (subst e) (rule div_mult_self3 [OF c0])
  have m: "(a + 1) mod c = (a mod c + 1) mod c"
    by (subst e) (rule mod_mult_self3)
  show ?thesis
  proof (cases "a mod c + 1 = c")
    case True
    have "c div c = 1" "c mod c = 0"
      using c0 by simp_all
    then have "(a mod c + 1) div c = 1" "(a mod c + 1) mod c = 0"
      by (simp_all only: True)
    with d m have "(a + 1) div c = a div c + 1" "(a + 1) mod c = 0" by simp_all
    then show ?thesis by simp
  next
    case False
    with r have lt: "a mod c + 1 < c" by linarith
    have nn: "0 \<le> a mod c + 1" using r by linarith
    have "(a mod c + 1) div c = 0" "(a mod c + 1) mod c = a mod c + 1"
      using lt nn by (simp_all only: div_pos_pos_trivial mod_pos_pos_trivial)
    moreover have "a mod c + 1 \<noteq> 0" using r by linarith
    ultimately have "(a + 1) div c = a div c" "(a + 1) mod c \<noteq> 0"
      using d m by simp_all
    then show ?thesis by simp
  qed
qed

lemma shift4: "((y::int) - 1968) mod 4 = y mod 4"
proof -
  have "y - 1968 = y + 4 * (- 492)" by simp
  then show ?thesis by (metis mod_mult_self2)
qed

lemma shift100: "((y::int) - 1900) mod 100 = y mod 100"
proof -
  have "y - 1900 = y + 100 * (- 19)" by simp
  then show ?thesis by (metis mod_mult_self2)
qed

lemma shift400: "((y::int) - 1600) mod 400 = y mod 400"
proof -
  have "y - 1600 = y + 400 * (- 4)" by simp
  then show ?thesis by (metis mod_mult_self2)
qed

lemma century_is_fourth: "(y::int) mod 100 = 0 \<Longrightarrow> y mod 4 = 0"
proof -
  assume "y mod 100 = 0"
  then have "100 dvd y" by (simp add: mod_eq_0_iff_dvd)
  moreover have "(4::int) dvd 100" by simp
  ultimately have "4 dvd y" by (rule dvd_trans [rotated])
  then show ?thesis by (simp add: mod_eq_0_iff_dvd)
qed

lemma fourth_century_is_century: "(y::int) mod 400 = 0 \<Longrightarrow> y mod 100 = 0"
proof -
  assume "y mod 400 = 0"
  then have "400 dvd y" by (simp add: mod_eq_0_iff_dvd)
  moreover have "(100::int) dvd 400" by simp
  ultimately have "100 dvd y" by (rule dvd_trans [rotated])
  then show ?thesis by (simp add: mod_eq_0_iff_dvd)
qed

lemma div_next:
  fixes y k c :: int
  assumes "1 < c" and "(y - (k - 1)) mod c = y mod c"
  shows "(y + 1 - k) div c = (y - k) div c + (if y mod c = 0 then 1 else 0)"
proof -
  have e: "y + 1 - k = (y - k) + 1" "(y - k) + 1 = y - (k - 1)" by simp_all
  have "(y + 1 - k) div c = ((y - k) + 1) div c" by (simp only: e(1))
  also have "\<dots> = (y - k) div c + (if ((y - k) + 1) mod c = 0 then 1 else 0)"
    using assms(1) by (rule div_succ)
  also have "((y - k) + 1) mod c = y mod c" by (simp only: e(2) assms(2))
  finally show ?thesis .
qed

lemma day_from_year_Suc: "day_from_year (y + 1) = day_from_year y + int (days_in_year y)"
proof -
  have a: "(y + 1 - 1969) div 4 = (y - 1969) div 4 + (if y mod 4 = 0 then 1 else 0)"
    by (rule div_next) (simp_all add: shift4)
  have b: "(y + 1 - 1901) div 100 = (y - 1901) div 100 + (if y mod 100 = 0 then 1 else 0)"
    by (rule div_next) (simp_all add: shift100)
  have c: "(y + 1 - 1601) div 400 = (y - 1601) div 400 + (if y mod 400 = 0 then 1 else 0)"
    by (rule div_next) (simp_all add: shift400)
  define A where "A = (y - 1969) div 4"
  define B where "B = (y - 1901) div 100"
  define C where "C = (y - 1601) div 400"
  have d: "day_from_year (y + 1) = 365 * (y + 1 - 1970)
             + (A + (if y mod 4 = 0 then 1 else 0)) - (B + (if y mod 100 = 0 then 1 else 0))
             + (C + (if y mod 400 = 0 then 1 else 0))"
    unfolding day_from_year_def A_def B_def C_def by (simp only: a b c)
  have d0: "day_from_year y = 365 * (y - 1970) + A - B + C"
    unfolding day_from_year_def A_def B_def C_def by (rule refl)
  show ?thesis
  proof (cases "y mod 4 = 0")
    case False
    then have "y mod 100 \<noteq> 0" "y mod 400 \<noteq> 0"
      using century_is_fourth [of y] fourth_century_is_century [of y] by auto
    with False show ?thesis
      unfolding d d0 by (simp add: days_in_year_def leap_def)
  next
    case four: True
    show ?thesis
    proof (cases "y mod 100 = 0")
      case False
      then have "y mod 400 \<noteq> 0" using fourth_century_is_century [of y] by auto
      with four False show ?thesis
        unfolding d d0 by (simp add: days_in_year_def leap_def)
    next
      case hundred: True
      show ?thesis
        using four hundred unfolding d d0
        by (cases "y mod 400 = 0") (simp_all add: days_in_year_def leap_def)
    qed
  qed
qed

lemma day_from_year_1970 [simp]: "day_from_year 1970 = 0"
  by (simp add: day_from_year_def)

lemma day_from_year_mono: "a \<le> b \<Longrightarrow> day_from_year a \<le> day_from_year b"
proof (induction b rule: int_ge_induct)
  case base
  then show ?case by simp
next
  case (step i)
  then show ?case using day_from_year_Suc [of i] by simp
qed

lemma days_before_month_Suc:
  "days_before_month y (Suc m) = days_before_month y m + month_length y m"
  by (simp add: days_before_month_def)

lemma days_before_month_0 [simp]: "days_before_month y 0 = 0"
  by (simp add: days_before_month_def)

lemma days_before_month_mono: "a \<le> b \<Longrightarrow> days_before_month y a \<le> days_before_month y b"
proof (induction rule: dec_induct)
  case base
  then show ?case by simp
next
  case (step n)
  then show ?case by (simp add: days_before_month_Suc)
qed

lemma days_before_month_12: "days_before_month y 12 = days_in_year y"
proof -
  have "[0..<12] = [0,1,2,3,4,5,6,7,8,9,10,11::nat]"
    by (simp add: upt_rec)
  then show ?thesis
    by (simp add: days_before_month_def month_length_def days_in_year_def)
qed

lemma month_length_bounds: "28 \<le> month_length y m" "month_length y m \<le> 31"
  by (simp_all add: month_length_def)

lemma year_from_sound:
  "year_from y0 n = (y, r) \<Longrightarrow>
     y0 \<le> y \<and> r < days_in_year y \<and> int n = day_from_year y - day_from_year y0 + int r"
proof (induction y0 n rule: year_from.induct)
  case (1 y0 n)
  show ?case
  proof (cases "n < days_in_year y0")
    case True
    with "1.prems" show ?thesis by (simp add: year_from.simps [of y0 n])
  next
    case False
    with "1.prems" have "year_from (y0 + 1) (n - days_in_year y0) = (y, r)"
      by (simp add: year_from.simps [of y0 n])
    from "1.IH" [OF False this] False show ?thesis
      by (simp add: day_from_year_Suc)
  qed
qed

lemma year_from_complete:
  "y0 \<le> y \<Longrightarrow> r < days_in_year y \<Longrightarrow>
     int n = day_from_year y - day_from_year y0 + int r \<Longrightarrow> year_from y0 n = (y, r)"
proof (induction "nat (y - y0)" arbitrary: y0 n)
  case 0
  then have "y0 = y" by simp
  with 0 show ?case by (simp add: year_from.simps [of y r])
next
  case (Suc k)
  then have lt: "y0 + 1 \<le> y" and k: "k = nat (y - (y0 + 1))" by auto
  have mono: "day_from_year (y0 + 1) \<le> day_from_year y"
    using lt by (rule day_from_year_mono)
  have ge: "\<not> n < days_in_year y0"
    using Suc.prems(3) mono day_from_year_Suc [of y0] by simp
  have n': "int (n - days_in_year y0) = day_from_year y - day_from_year (y0 + 1) + int r"
    using Suc.prems(3) ge day_from_year_Suc [of y0] by simp
  have "year_from (y0 + 1) (n - days_in_year y0) = (y, r)"
    using k lt Suc.prems(2) n' by (rule Suc.hyps(1))
  with ge show ?case by (simp add: year_from.simps [of y0 n])
qed

lemma month_from_sound:
  "month_from y m0 n = (m, r) \<Longrightarrow> m0 \<le> 11 \<Longrightarrow>
   n + days_before_month y m0 < days_before_month y 12 \<Longrightarrow>
     m0 \<le> m \<and> m \<le> 11 \<and> r < month_length y m
   \<and> n + days_before_month y m0 = days_before_month y m + r"
proof (induction y m0 n rule: month_from.induct)
  case (1 y m0 n)
  show ?case
  proof (cases "11 \<le> m0 \<or> n < month_length y m0")
    case True
    with "1.prems" have eq: "m = m0" "r = n"
      by (auto simp: month_from.simps [of y m0 n])
    show ?thesis
    proof (cases "n < month_length y m0")
      case True
      with eq "1.prems" show ?thesis by simp
    next
      case False
      with True "1.prems" have m11: "m0 = 11" by simp
      have "days_before_month y 12 = days_before_month y 11 + month_length y 11"
        using days_before_month_Suc [of y 11] by simp
      with m11 eq "1.prems" show ?thesis by simp
    qed
  next
    case False
    with "1.prems" have rec: "month_from y (m0 + 1) (n - month_length y m0) = (m, r)"
      by (simp add: month_from.simps [of y m0 n])
    from False have m0: "m0 + 1 \<le> 11" and ge: "month_length y m0 \<le> n" by auto
    have b: "(n - month_length y m0) + days_before_month y (m0 + 1) < days_before_month y 12"
      using ge "1.prems"(3) by (simp add: days_before_month_Suc)
    from "1.IH" [OF False rec m0 b] ge show ?thesis
      by (simp add: days_before_month_Suc)
  qed
qed

lemma month_from_complete:
  "m0 \<le> m \<Longrightarrow> m \<le> 11 \<Longrightarrow> r < month_length y m \<Longrightarrow>
   n + days_before_month y m0 = days_before_month y m + r \<Longrightarrow> month_from y m0 n = (m, r)"
proof (induction "m - m0" arbitrary: m0 n)
  case 0
  then have "m0 = m" by simp
  with 0 show ?case by (simp add: month_from.simps [of y m r])
next
  case (Suc k)
  then have lt: "m0 + 1 \<le> m" and k: "k = m - (m0 + 1)" by auto
  have mono: "days_before_month y (m0 + 1) \<le> days_before_month y m"
    using lt by (rule days_before_month_mono)
  have ge: "month_length y m0 \<le> n"
    using Suc.prems(4) mono by (simp add: days_before_month_Suc)
  have m0: "\<not> 11 \<le> m0" using lt Suc.prems(2) by simp
  have n': "(n - month_length y m0) + days_before_month y (m0 + 1) = days_before_month y m + r"
    using Suc.prems(4) ge by (simp add: days_before_month_Suc)
  have "month_from y (m0 + 1) (n - month_length y m0) = (m, r)"
    using k lt Suc.prems(2) Suc.prems(3) n' by (rule Suc.hyps(1))
  with ge m0 show ?case by (simp add: month_from.simps [of y m0 n])
qed

text \<open>
  The civil date of a clock reading from 1970 on: its day number splits into the start
  of its year, the days before its month and the day within the month.
\<close>

lemma civil_of_now:
  assumes "0 \<le> now"
  shows "\<exists>r. 1970 \<le> getFullYear now \<and> getMonth now \<le> 11
           \<and> r < month_length (getFullYear now) (getMonth now)
           \<and> getDate now = r + 1
           \<and> int (day_number now)
               = day_from_year (getFullYear now)
                 + int (days_before_month (getFullYear now) (getMonth now)) + int r"
proof -
  obtain y r where yf: "year_from 1970 (day_number now) = (y, r)"
    by (cases "year_from 1970 (day_number now)") auto
  from year_from_sound [OF yf] have y: "1970 \<le> y" "r < days_in_year y"
    "int (day_number now) = day_from_year y + int r" by simp_all
  obtain m r' where mf: "month_from y 0 r = (m, r')"
    by (cases "month_from y 0 r") auto
  have "r + days_before_month y 0 < days_before_month y 12"
    using y(2) by (simp add: days_before_month_12)
  from month_from_sound [OF mf _ this] have m: "m \<le> 11" "r' < month_length y m"
    "r = days_before_month y m + r'" by simp_all
  have g: "getFullYear now = y" "getMonth now = m" "getDate now = r' + 1"
    by (simp_all add: getFullYear_def getMonth_def getDate_def yf mf)
  show ?thesis
    unfolding g using y m by (intro exI [of _ r']) simp
qed

lemma civil_of_day:
  assumes "1970 \<le> y" and "m \<le> 11" and "r < month_length y m"
      and "int n = day_from_year y + int (days_before_month y m) + int r"
  shows "year_from 1970 n = (y, days_before_month y m + r)"
    and "month_from y 0 (days_before_month y m + r) = (m, r)"
proof -
  have "days_before_month y m + month_length y m = days_before_month y (Suc m)"
    by (simp add: days_before_month_Suc)
  also have "\<dots> \<le> days_before_month y 12"
    using assms(2) by (intro days_before_month_mono) simp
  finally have lt: "days_before_month y m + r < days_in_year y"
    using assms(3) by (simp add: days_before_month_12)
  show "year_from 1970 n = (y, days_before_month y m + r)"
    using assms(1) lt by (rule year_from_complete) (simp add: assms(4))
  show "month_from y 0 (days_before_month y m + r) = (m, r)"
    using _ assms(2) assms(3) by (rule month_from_complete) simp_all
qed

text \<open>
  \<^verbatim>\<open>new Date(now.getFullYear(), now.getMonth() + 1, 0).getDate()\<close> is the number of days
  of the month of \<open>now\<close>.
\<close>

lemma make_day_next_month:
  assumes "m \<le> 11"
  shows "make_day y (int m + 1) dt
           = day_from_year y + int (days_before_month y m) + int (month_length y m) + dt - 1"
proof (cases "m = 11")
  case True
  have "days_before_month y 12 = days_before_month y 11 + month_length y 11"
    using days_before_month_Suc [of y 11] by simp
  then have "int (days_in_year y) = int (days_before_month y 11) + int (month_length y 11)"
    by (simp add: days_before_month_12)
  with True show ?thesis
    by (simp add: make_day_def Let_def day_from_year_Suc)
next
  case False
  with assms have lt: "m < 11" by simp
  then have "(int m + 1) div 12 = 0" "(int m + 1) mod 12 = int m + 1"
    by simp_all
  moreover have "nat (int m + 1) = Suc m" by simp
  ultimately show ?thesis
    by (simp add: make_day_def Let_def days_before_month_Suc)
qed

lemma make_day_this_month:
  assumes "m \<le> 11"
  shows "make_day y (int m) dt = day_from_year y + int (days_before_month y m) + dt - 1"
proof -
  from assms have "int m div 12 = 0" "nat (int m mod 12) = m" by simp_all
  then show ?thesis by (simp add: make_day_def Let_def)
qed

lemma days_in_current_month:
  assumes "0 \<le> now"
  shows "new_Date (getFullYear now) (int (getMonth now) + 1) (Some 0) (Some 0) 0 = Time t
           \<Longrightarrow> int (getDate t) = int (month_length (getFullYear now) (getMonth now))"
proof -
  assume nd: "new_Date (getFullYear now) (int (getMonth now) + 1) (Some 0) (Some 0) 0 = Time t"
  let ?y = "getFullYear now" and ?m = "getMonth now"
  from civil_of_now [OF assms] obtain r where
    y: "1970 \<le> ?y" and m: "?m \<le> 11" and r: "r < month_length ?y ?m"
    by blast
  let ?L = "day_from_year ?y + int (days_before_month ?y ?m) + int (month_length ?y ?m) - 1"
  have t: "t = ?L * msPerDay"
    using nd make_day_next_month [OF m, of ?y 0]
    by (simp add: new_Date_def make_time_def)
  have ml: "1 \<le> month_length ?y ?m" using month_length_bounds(1) [of ?y ?m] by simp
  have dy: "0 \<le> day_from_year ?y" using day_from_year_mono [OF y] by simp
  have L0: "0 \<le> ?L" using ml dy by simp
  have "t div msPerDay = ?L" unfolding t by (simp add: msPerDay_def)
  then have dn: "int (day_number t)
                   = day_from_year ?y + int (days_before_month ?y ?m)
                     + int (month_length ?y ?m - 1)"
    using L0 ml by (simp add: day_number_def)
  have lt: "month_length ?y ?m - 1 < month_length ?y ?m" using ml by simp
  note c = civil_of_day [OF y m lt dn]
  have "getDate t
          = snd (month_from ?y 0 (days_before_month ?y ?m + (month_length ?y ?m - 1))) + 1"
    by (simp only: getDate_def c(1) prod.case)
  also have "\<dots> = (month_length ?y ?m - 1) + 1"
    by (simp only: c(2) snd_conv)
  also have "\<dots> = month_length ?y ?m"
    using ml by simp
  finally show ?thesis by simp
qed

subsection \<open>The biweekly rule\<close>

lemma make_time_mono: "x \<le> x' \<Longrightarrow> make_time y m x h mi \<le> make_time y m x' h mi"
  by (simp add: make_time_def make_day_def Let_def msPerDay_def)

text \<open>
  Day 0 of the current month (the last day of the month before) at a time of day is
  never after \<open>now\<close>.
\<close>

lemma day_zero_not_after:
  assumes "0 \<le> now"
      and "0 \<le> h * 3600000 + mi * 60000" and "h * 3600000 + mi * 60000 < msPerDay"
  shows "\<not> now < make_time (getFullYear now) (int (getMonth now)) 0 h mi"
proof -
  let ?y = "getFullYear now" and ?m = "getMonth now"
  from civil_of_now [OF assms(1)] obtain r where
    m: "?m \<le> 11"
    and dn: "int (day_number now)
               = day_from_year ?y + int (days_before_month ?y ?m) + int r"
    by blast
  let ?A = "day_from_year ?y + int (days_before_month ?y ?m)"
  have q: "now div msPerDay = int (day_number now)"
    using assms(1) by (simp add: day_number_def msPerDay_def pos_imp_zdiv_nonneg_iff)
  have "make_time ?y (int ?m) 0 h mi = (?A - 1) * msPerDay + (h * 3600000 + mi * 60000)"
    by (simp add: make_time_def make_day_this_month [OF m])
  also have "\<dots> < (?A - 1) * msPerDay + msPerDay"
    using assms(3) by simp
  also have "\<dots> = ?A * msPerDay"
    by (simp add: algebra_simps)
  also have "\<dots> \<le> (now div msPerDay) * msPerDay"
    unfolding q dn by (simp add: msPerDay_def)
  also have "\<dots> \<le> now"
  proof -
    have "now = (now div msPerDay) * msPerDay + now mod msPerDay" by simp
    moreover have "0 \<le> now mod msPerDay" by (simp add: msPerDay_def)
    ultimately show ?thesis by linarith
  qed
  finally show ?thesis by simp
qed

lemma biweekly_next_unfold:
  assumes "0 \<le> now"
      and "parseInt_str (reporte_dia c) = Some d"
      and "1 \<le> d \<or> (0 \<le> h * 3600000 + mi * 60000 \<and> h * 3600000 + mi * 60000 < msPerDay)"
  shows "biweekly_next c now (Some h) mi =
           Time (let y = getFullYear now; m = int (getMonth now);
                     dim = int (month_length y (getMonth now))
                 in if now < make_time y m d h mi then make_time y m d h mi
                    else if now < make_time y m (d + 15) h mi then make_time y m (d + 15) h mi
                    else if now < make_time y m (d + dim) h mi then make_time y m (d + dim) h mi
                    else make_time y (m + 1) d h mi)"
proof -
  let ?y = "getFullYear now" and ?m = "int (getMonth now)"
  let ?dim = "int (month_length ?y (getMonth now))"
  obtain t0 where t0: "new_Date ?y (?m + 1) (Some 0) (Some 0) 0 = Time t0"
    by (simp add: new_Date_def)
  have dim: "int (getDate t0) = ?dim"
    using assms(1) t0 by (rule days_in_current_month)
  have pos: "0 \<le> ?dim" by simp
  have nz: "\<And>x. x = d \<or> x = d + 15 \<or> x = d + ?dim \<Longrightarrow>
              now < make_time ?y ?m x h mi \<Longrightarrow> x \<noteq> 0"
  proof
    fix x assume x: "x = d \<or> x = d + 15 \<or> x = d + ?dim"
      and after: "now < make_time ?y ?m x h mi" and z: "x = 0"
    from assms(3) show False
    proof
      assume "1 \<le> d"
      with x pos z show False by auto
    next
      assume "0 \<le> h * 3600000 + mi * 60000 \<and> h * 3600000 + mi * 60000 < msPerDay"
      then have "\<not> now < make_time ?y ?m 0 h mi"
        using day_zero_not_after [OF assms(1)] by simp
      with after z show False by simp
    qed
  qed
  have n1: "now < make_time ?y ?m d h mi \<Longrightarrow> d \<noteq> 0"
    and n2: "now < make_time ?y ?m (d + 15) h mi \<Longrightarrow> d + 15 \<noteq> 0"
    and n3: "now < make_time ?y ?m (d + ?dim) h mi \<Longrightarrow> d + ?dim \<noteq> 0"
    using nz by blast+
  show ?thesis
    unfolding biweekly_next_def assms(2) Let_def t0 date.case dim
    using n1 n2 n3 by (simp add: new_Date_def date_after_def)
qed

text \<open>
  Claim C7. For an enabled biweekly configuration whose day text reads the number \<open>d\<close>
  and whose hour text reads \<open>h:mi\<close>, where \<open>d\<close> is a day-of-month (1 or more) or
  \<open>h:mi\<close> is a time of day, at a clock reading \<open>now\<close> (from 1970 on), the candidates
  are the days \<open>d\<close>, \<open>d + 15\<close> and
  \<open>d +\<close> (the number of days of the current month) of the current month at \<open>h:mi\<close>.
  The next report time is the smallest candidate strictly after \<open>now\<close>; when no
  candidate is after \<open>now\<close> it is day \<open>d\<close> of the next calendar month at \<open>h:mi\<close>.
\<close>

theorem biweekly_next_fire:
  assumes "0 \<le> now"
      and "reporte_reposicion_activado c"
      and "reporte_frecuencia c = ''biweekly''"
      and "parseInt_str (reporte_dia c) = Some d"
      and "1 \<le> d \<or> (0 \<le> h * 3600000 + mi * 60000 \<and> h * 3600000 + mi * 60000 < msPerDay)"
      and "hour_minute (reporte_hora c) = (Some h, Some mi)"
  shows "\<exists>t. calculateNextReportTime (Some c) now = Some (Time t)
           \<and> (let y = getFullYear now; m = int (getMonth now);
                   dim = int (month_length y (getMonth now));
                   cands = {make_time y m d h mi, make_time y m (d + 15) h mi,
                            make_time y m (d + dim) h mi}
               in if \<exists>x \<in> cands. now < x
                  then t \<in> cands \<and> now < t \<and> (\<forall>x \<in> cands. now < x \<longrightarrow> t \<le> x)
                  else t = make_time y (m + 1) d h mi)"
proof -
  let ?y = "getFullYear now" and ?m = "int (getMonth now)"
  let ?dim = "int (month_length ?y (getMonth now))"
  let ?c1 = "make_time ?y ?m d h mi"
  let ?c2 = "make_time ?y ?m (d + 15) h mi"
  let ?c3 = "make_time ?y ?m (d + ?dim) h mi"
  let ?fb = "make_time ?y (?m + 1) d h mi"
  let ?t = "if now < ?c1 then ?c1 else if now < ?c2 then ?c2
            else if now < ?c3 then ?c3 else ?fb"
  have "28 \<le> month_length ?y (getMonth now)" by (rule month_length_bounds(1))
  then have dim: "15 \<le> ?dim" by simp
  have o12: "?c1 \<le> ?c2" by (rule make_time_mono) simp
  have o23: "?c2 \<le> ?c3" using dim by (intro make_time_mono) simp
  have fr: "reporte_frecuencia c \<noteq> ''daily''" "reporte_frecuencia c \<noteq> ''weekly''"
    using assms(3) by simp_all
  have res: "calculateNextReportTime (Some c) now = Some (Time ?t)"
    using assms(2) assms(3) assms(6) fr
          biweekly_next_unfold [OF assms(1) assms(4) assms(5)]
    by (simp add: calculateNextReportTime_def or_zero_def Let_def)
  have pick: "if \<exists>x \<in> {?c1, ?c2, ?c3}. now < x
              then ?t \<in> {?c1, ?c2, ?c3} \<and> now < ?t
                     \<and> (\<forall>x \<in> {?c1, ?c2, ?c3}. now < x \<longrightarrow> ?t \<le> x)
              else ?t = ?fb"
    using o12 o23 by auto
  show ?thesis
    using res pick by (intro exI [of _ ?t]) (simp only: Let_def simp_thms)
qed

lemma ev_biweekly_parse:
  "reporte_reposicion_activado biweekly_20_nine"
  "reporte_frecuencia biweekly_20_nine = ''biweekly''"
  "parseInt_str (reporte_dia biweekly_20_nine) = Some 20"
  "hour_minute (reporte_hora biweekly_20_nine) = (Some 9, Some 0)"
  by code_simp+

lemma ev_biweekly_next:
  "calculateNextReportTime (Some biweekly_20_nine) 522000000 = Some (Time 1674000000)"
  by code_simp

theorem biweekly_next_fire_witness:
  "(0::int) \<le> 522000000
   \<and> reporte_reposicion_activado biweekly_20_nine
   \<and> reporte_frecuencia biweekly_20_nine = ''biweekly''
   \<and> parseInt_str (reporte_dia biweekly_20_nine) = Some 20
   \<and> ((1::int) \<le> 20 \<or> ((0::int) \<le> 9 * 3600000 + 0 * 60000
                          \<and> (9::int) * 3600000 + 0 * 60000 < msPerDay))
   \<and> hour_minute (reporte_hora biweekly_20_nine) = (Some 9, Some 0)
   \<and> calculateNextReportTime (Some biweekly_20_nine) 522000000 = Some (Time 1674000000)
   \<and> (let y = getFullYear 522000000; m = int (getMonth 522000000);
           dim = int (month_length y (getMonth 522000000));
           cands = {make_time y m 20 9 0, make_time y m (20 + 15) 9 0,
                    make_time y m (20 + dim) 9 0}
       in if \<exists>x \<in> cands. 522000000 < x
          then 1674000000 \<in> cands \<and> (522000000::int) < 1674000000
                 \<and> (\<forall>x \<in> cands. 522000000 < x \<longrightarrow> 1674000000 \<le> x)
          else 1674000000 = make_time y (m + 1) 20 9 0)"
proof -
  have h1: "(0::int) \<le> 522000000" by simp
  have h5: "(1::int) \<le> 20 \<or> ((0::int) \<le> 9 * 3600000 + 0 * 60000
                               \<and> (9::int) * 3600000 + 0 * 60000 < msPerDay)"
    by simp
  from biweekly_next_fire
         [OF h1 ev_biweekly_parse(1) ev_biweekly_parse(2) ev_biweekly_parse(3) h5
             ev_biweekly_parse(4)]
  have "let y = getFullYear 522000000; m = int (getMonth 522000000);
            dim = int (month_length y (getMonth 522000000));
            cands = {make_time y m 20 9 0, make_time y m (20 + 15) 9 0,
                     make_time y m (20 + dim) 9 0}
        in if \<exists>x \<in> cands. 522000000 < x
           then 1674000000 \<in> cands \<and> (522000000::int) < 1674000000
                  \<and> (\<forall>x \<in> cands. 522000000 < x \<longrightarrow> 1674000000 \<le> x)
           else 1674000000 = make_time y (m + 1) 20 9 0"
    unfolding ev_biweekly_next by simp
  with h1 h5 ev_biweekly_parse ev_biweekly_next show ?thesis
    by (intro conjI) assumption+
qed

text \<open>
  Two checks of the calendar behind the candidates: day \<open>x\<close> of a month at a time of day
  is a time value that reads back as that year, month and date; and the third candidate
  is the same instant as day \<open>d\<close> of the next month.
\<close>

lemma make_time_is_civil:
  assumes "1970 \<le> y" and "m \<le> 11" and "1 \<le> x" and "x \<le> int (month_length y m)"
      and "0 \<le> h * 3600000 + mi * 60000" and "h * 3600000 + mi * 60000 < msPerDay"
  shows "getFullYear (make_time y (int m) x h mi) = y"
    and "getMonth (make_time y (int m) x h mi) = m"
    and "int (getDate (make_time y (int m) x h mi)) = x"
proof -
  let ?t = "make_time y (int m) x h mi"
  let ?A = "day_from_year y + int (days_before_month y m)"
  define off where "off = h * 3600000 + mi * 60000"
  have t: "?t = off + (?A + x - 1) * msPerDay"
    unfolding off_def by (simp add: make_time_def make_day_this_month [OF assms(2)])
  have "(off + (?A + x - 1) * msPerDay) div msPerDay = (?A + x - 1) + off div msPerDay"
    by (rule div_day)
  moreover have "off div msPerDay = 0"
    using assms(5) assms(6) unfolding off_def by (simp add: div_pos_pos_trivial)
  ultimately have dv: "?t div msPerDay = ?A + x - 1"
    unfolding t by simp
  have A0: "0 \<le> ?A" using day_from_year_mono [OF assms(1)] by simp
  have dn: "int (day_number ?t)
              = day_from_year y + int (days_before_month y m) + int (nat (x - 1))"
    using dv A0 assms(3) by (simp add: day_number_def)
  have lt: "nat (x - 1) < month_length y m" using assms(3) assms(4) by simp
  note c = civil_of_day [OF assms(1) assms(2) lt dn]
  show "getFullYear ?t = y"
    by (simp only: getFullYear_def c(1) fst_conv)
  show "getMonth ?t = m"
    by (simp only: getMonth_def c(1) prod.case c(2) fst_conv)
  have "getDate ?t = nat (x - 1) + 1"
    by (simp only: getDate_def c(1) prod.case c(2) snd_conv)
  then show "int (getDate ?t) = x"
    using assms(3) by simp
qed

lemma third_candidate_is_next_month:
  assumes "0 \<le> now"
  shows "make_time (getFullYear now) (int (getMonth now))
           (d + int (month_length (getFullYear now) (getMonth now))) h mi
         = make_time (getFullYear now) (int (getMonth now) + 1) d h mi"
proof -
  from civil_of_now [OF assms] have m: "getMonth now \<le> 11" by blast
  show ?thesis
    by (simp add: make_time_def make_day_next_month [OF m] make_day_this_month [OF m])
qed

end
